theory Spec2Isabelle
  imports Complex_Main
begin

section \<open>Data model (types/diagram, src/unnamed/part_007)\<close>

text \<open>
  JavaScript numbers are modelled as real numbers: every statement below is about the
  exact arithmetic the code denotes, which is what the specification means by
  "within floating-point tolerance". NaN, the infinities and signed zeros are outside
  the model.

  Only the fields the layout code reads or writes are kept; the remaining optional
  fields of a node or an edge are carried along untouched by the object spread of the
  source and play no part here.
\<close>

record Position =
  pos_x :: real
  pos_y :: real

record Size =
  width :: real
  height :: real

record DiagramNode =
  node_id :: string
  node_type :: string
  position :: Position
  node_size :: Size
  data_label :: string

record DiagramEdge =
  edge_id :: string
  source :: string
  target :: string

record Spacing =
  horizontal :: real
  vertical :: real
  node_gap :: real

record LayoutConfig =
  diagram_type :: string
  direction :: string
  spacing :: Spacing
  alignment :: "string option"

record SmartDiagramData =
  data_id :: "string option"
  nodes :: "DiagramNode list"
  edges :: "DiagramEdge list"
  layout_config :: LayoutConfig
  metadata_title :: string

datatype error = SolverFailure string

section \<open>Geometry primitives (src/lib/utils/geometry.ts)\<close>

definition distance :: "Position \<Rightarrow> Position \<Rightarrow> real" where
  "distance p1 p2 = sqrt ((pos_x p2 - pos_x p1)\<^sup>2 + (pos_y p2 - pos_y p1)\<^sup>2)"

text \<open>\<open>Math.atan2\<close> on real arguments, with \<open>atan2 0 0 = 0\<close> as in JavaScript.\<close>

definition atan2 :: "real \<Rightarrow> real \<Rightarrow> real" where
  "atan2 b a =
     (if 0 < a then arctan (b / a)
      else if a < 0 \<and> 0 \<le> b then arctan (b / a) + pi
      else if a < 0 then arctan (b / a) - pi
      else if 0 < b then pi / 2
      else if b < 0 then - (pi / 2)
      else 0)"

definition angle :: "Position \<Rightarrow> Position \<Rightarrow> real" where
  "angle p1 p2 = atan2 (pos_y p2 - pos_y p1) (pos_x p2 - pos_x p1)"

definition clamp :: "real \<Rightarrow> real \<Rightarrow> real \<Rightarrow> real" where
  "clamp v lo hi = min (max v lo) hi"

definition intersection_denom :: "Position \<Rightarrow> Position \<Rightarrow> Position \<Rightarrow> Position \<Rightarrow> real" where
  "intersection_denom l1s l1e l2s l2e =
     (pos_x l1s - pos_x l1e) * (pos_y l2s - pos_y l2e)
       - (pos_y l1s - pos_y l1e) * (pos_x l2s - pos_x l2e)"

definition getLineIntersection ::
  "Position \<Rightarrow> Position \<Rightarrow> Position \<Rightarrow> Position \<Rightarrow> Position option" where
  "getLineIntersection l1s l1e l2s l2e =
     (let x1 = pos_x l1s; y1 = pos_y l1s;
          x2 = pos_x l1e; y2 = pos_y l1e;
          x3 = pos_x l2s; y3 = pos_y l2s;
          x4 = pos_x l2e; y4 = pos_y l2e;
          denom = (x1 - x2) * (y3 - y4) - (y1 - y2) * (x3 - x4)
      in if \<bar>denom\<bar> < 1 / 10 ^ 10 then None
         else
           let t = ((x1 - x3) * (y3 - y4) - (y1 - y3) * (x3 - x4)) / denom;
               u = - ((x1 - x2) * (y1 - y3) - (y1 - y2) * (x1 - x3)) / denom
           in if 0 \<le> t \<and> t \<le> 1 \<and> 0 \<le> u \<and> u \<le> 1
              then Some \<lparr>pos_x = x1 + t * (x2 - x1), pos_y = y1 + t * (y2 - y1)\<rparr>
              else None)"

section \<open>Dependency-graph engine (DagreLayoutEngine, src/unnamed/part_002)\<close>

text \<open>
  The external solver is a parameter. It receives the graph the engine builds (the
  calls to \<open>setGraph\<close>, \<open>setNode\<close> and \<open>setEdge\<close>, in order) and either throws or
  yields, for a node id, the anchor point it computed. The source has no handler around
  \<open>dagre.layout\<close>, so a throw leaves \<open>layout\<close> as an error.
\<close>

record DagreGraph =
  rankdir :: string
  nodesep :: real
  ranksep :: real
  edgesep :: real
  align :: string
  graph_nodes :: "(string \<times> real \<times> real \<times> string) list"
  graph_edges :: "(string \<times> string) list"

type_synonym dagre_solver = "DagreGraph \<Rightarrow> error + (string \<Rightarrow> (real \<times> real) option)"

definition dagre_direction :: "string \<Rightarrow> string" where
  "dagre_direction d =
     (if d = ''top-bottom'' \<or> d = ''vertical'' then ''TB''
      else if d = ''bottom-top'' then ''BT''
      else if d = ''left-right'' \<or> d = ''horizontal'' then ''LR''
      else if d = ''right-left'' then ''RL''
      else ''TB'')"

definition dagre_graph :: "DiagramNode list \<Rightarrow> DiagramEdge list \<Rightarrow> LayoutConfig \<Rightarrow> DagreGraph" where
  "dagre_graph ns es config =
     \<lparr>rankdir = dagre_direction (direction config),
      nodesep = node_gap (spacing config),
      ranksep = vertical (spacing config),
      edgesep = 50,
      align = (case alignment config of None \<Rightarrow> ''UL''
               | Some a \<Rightarrow> if a = [] then ''UL'' else a),
      graph_nodes = map (\<lambda>n. (node_id n, width (node_size n), height (node_size n), data_label n)) ns,
      graph_edges = map (\<lambda>e. (source e, target e)) es\<rparr>"

definition dagre_place :: "(string \<Rightarrow> (real \<times> real) option) \<Rightarrow> DiagramNode \<Rightarrow> DiagramNode" where
  "dagre_place res n =
     (case res (node_id n) of
        Some (gx, gy) \<Rightarrow>
          n\<lparr>position := \<lparr>pos_x = gx - width (node_size n) / 2,
                          pos_y = gy - height (node_size n) / 2\<rparr>\<rparr>
      | None \<Rightarrow> n)"

definition DagreLayoutEngine_layout ::
  "dagre_solver \<Rightarrow> DiagramNode list \<Rightarrow> DiagramEdge list \<Rightarrow> LayoutConfig \<Rightarrow> error + DiagramNode list" where
  "DagreLayoutEngine_layout solve ns es config =
     (case solve (dagre_graph ns es config) of
        Inl e \<Rightarrow> Inl e
      | Inr res \<Rightarrow> Inr (map (dagre_place res) ns))"

text \<open>
  \<open>getBounds\<close>: the accumulators start at \<open>Infinity\<close> and \<open>-Infinity\<close>, so after the
  first node they hold that node's values; the model starts the loop there.
\<close>

record Bounds =
  b_width :: real
  b_height :: real
  offset :: Position

definition bounds_step :: "DiagramNode \<Rightarrow> real \<times> real \<times> real \<times> real \<Rightarrow> real \<times> real \<times> real \<times> real" where
  "bounds_step n acc =
     (case acc of (minX, minY, maxX, maxY) \<Rightarrow>
        (min minX (pos_x (position n)),
         min minY (pos_y (position n)),
         max maxX (pos_x (position n) + width (node_size n)),
         max maxY (pos_y (position n) + height (node_size n))))"

fun getBounds :: "DiagramNode list \<Rightarrow> Bounds" where
  "getBounds [] = \<lparr>b_width = 800, b_height = 600, offset = \<lparr>pos_x = 0, pos_y = 0\<rparr>\<rparr>"
| "getBounds (n # ns) =
     (case fold bounds_step ns
             (pos_x (position n), pos_y (position n),
              pos_x (position n) + width (node_size n),
              pos_y (position n) + height (node_size n)) of
        (minX, minY, maxX, maxY) \<Rightarrow>
          \<lparr>b_width = maxX - minX, b_height = maxY - minY,
           offset = \<lparr>pos_x = - minX + 50, pos_y = - minY + 50\<rparr>\<rparr>)"

definition DagreLayoutEngine_getBounds :: "DiagramNode list \<Rightarrow> Bounds" where
  "DagreLayoutEngine_getBounds = getBounds"

section \<open>Constraint-graph engine (ElkJSLayoutEngine, src/unnamed/part_001)\<close>

text \<open>
  The ELK solver is a parameter as well; the \<open>await\<close> is a sequential call. Here the
  solve step sits inside \<open>try\<close>, and the handler returns the input nodes.
\<close>

datatype elk_option = Text string | NumberText real

record ElkGraph =
  elk_root :: string
  layoutOptions :: "(string \<times> elk_option) list"
  children :: "(string \<times> real \<times> real \<times> string) list"
  elk_edges :: "(string \<times> string list \<times> string list) list"

record ElkNode =
  elk_id :: string
  elk_x :: "real option"
  elk_y :: "real option"

type_synonym elk_solver = "ElkGraph \<Rightarrow> error + ElkNode list option"

definition getElkDirection :: "string \<Rightarrow> string" where
  "getElkDirection d =
     (if d = ''top-bottom'' \<or> d = ''vertical'' then ''DOWN''
      else if d = ''bottom-top'' then ''UP''
      else if d = ''left-right'' \<or> d = ''horizontal'' then ''RIGHT''
      else if d = ''right-left'' then ''LEFT''
      else ''DOWN'')"

definition elk_graph :: "DiagramNode list \<Rightarrow> DiagramEdge list \<Rightarrow> LayoutConfig \<Rightarrow> ElkGraph" where
  "elk_graph ns es config =
     \<lparr>elk_root = ''root'',
      layoutOptions =
        [(''elk.algorithm'', Text ''layered''),
         (''elk.direction'', Text (getElkDirection (direction config))),
         (''elk.spacing.nodeNode'', NumberText (node_gap (spacing config))),
         (''elk.layered.spacing.nodeNodeBetweenLayers'', NumberText (vertical (spacing config))),
         (''elk.spacing.edgeNode'', Text ''20''),
         (''elk.spacing.edgeEdge'', Text ''10'')],
      children = map (\<lambda>n. (node_id n, width (node_size n), height (node_size n), data_label n)) ns,
      elk_edges = map (\<lambda>e. (edge_id e, [source e], [target e])) es\<rparr>"

definition elk_place :: "ElkNode list option \<Rightarrow> DiagramNode \<Rightarrow> DiagramNode" where
  "elk_place res n =
     (case res of
        None \<Rightarrow> n
      | Some cs \<Rightarrow>
          (case find (\<lambda>c. elk_id c = node_id n) cs of
             None \<Rightarrow> n
           | Some c \<Rightarrow>
               (case (elk_x c, elk_y c) of
                  (Some lx, Some ly) \<Rightarrow> n\<lparr>position := \<lparr>pos_x = lx, pos_y = ly\<rparr>\<rparr>
                | _ \<Rightarrow> n)))"

definition ElkJSLayoutEngine_layout ::
  "elk_solver \<Rightarrow> DiagramNode list \<Rightarrow> DiagramEdge list \<Rightarrow> LayoutConfig \<Rightarrow> DiagramNode list" where
  "ElkJSLayoutEngine_layout solve ns es config =
     (case solve (elk_graph ns es config) of
        Inl e \<Rightarrow> ns
      | Inr res \<Rightarrow> map (elk_place res) ns)"

definition ElkJSLayoutEngine_getBounds :: "DiagramNode list \<Rightarrow> Bounds" where
  "ElkJSLayoutEngine_getBounds = getBounds"

section \<open>Layout manager (LayoutManager, src/unnamed/part_000)\<close>

text \<open>
  The declared engine names are \<open>dagre\<close>, \<open>elkjs\<close> and \<open>none\<close>; \<open>unlisted\<close> stands for
  any other value, which the source sends through its final \<open>else\<close> branch.
\<close>

datatype LayoutEngineType = dagre | elkjs | none | unlisted

definition center_node :: "Bounds \<Rightarrow> DiagramNode \<Rightarrow> DiagramNode" where
  "center_node b n =
     n\<lparr>position := \<lparr>pos_x = pos_x (position n) + pos_x (offset b),
                     pos_y = pos_y (position n) + pos_y (offset b)\<rparr>\<rparr>"

definition center_layout :: "SmartDiagramData \<Rightarrow> LayoutEngineType \<Rightarrow> DiagramNode list \<Rightarrow> SmartDiagramData" where
  "center_layout data engine layoutedNodes =
     (let bounds = (if engine = dagre then DagreLayoutEngine_getBounds layoutedNodes
                    else ElkJSLayoutEngine_getBounds layoutedNodes)
      in data\<lparr>nodes := map (center_node bounds) layoutedNodes\<rparr>)"

definition applyLayout ::
  "dagre_solver \<Rightarrow> elk_solver \<Rightarrow> SmartDiagramData \<Rightarrow> LayoutEngineType \<Rightarrow> error + SmartDiagramData" where
  "applyLayout dsolve esolve data engine =
     (if engine = none \<or> nodes data = [] then Inr data
      else
        (case (if engine = dagre
               then DagreLayoutEngine_layout dsolve (nodes data) (edges data) (layout_config data)
               else if engine = elkjs
               then Inr (ElkJSLayoutEngine_layout esolve (nodes data) (edges data) (layout_config data))
               else Inr (nodes data)) of
           Inl e \<Rightarrow> Inl e
         | Inr layoutedNodes \<Rightarrow> Inr (center_layout data engine layoutedNodes)))"

section \<open>Custom layout engine (src/lib/layouts/engines/custom.ts)\<close>

text \<open>
  The custom engine writes \<open>node.position.x\<close> and \<open>node.position.y\<close> of the node
  objects it is given, so its model has an explicit store: a node array is a list of
  references, and the store maps a reference to the node object it denotes. Each node
  object is taken to own its position object (two distinct nodes do not share one).
  \<open>[...nodes]\<close> copies the array, not the objects: the copy is the same list of
  references.
\<close>

type_synonym ref = nat
type_synonym store = "ref \<Rightarrow> DiagramNode"

definition set_position_x :: "ref \<Rightarrow> real \<Rightarrow> store \<Rightarrow> store" where
  "set_position_x r v h = h(r := (h r)\<lparr>position := (position (h r))\<lparr>pos_x := v\<rparr>\<rparr>)"

definition set_position_y :: "ref \<Rightarrow> real \<Rightarrow> store \<Rightarrow> store" where
  "set_position_y r v h = h(r := (h r)\<lparr>position := (position (h r))\<lparr>pos_y := v\<rparr>\<rparr>)"

datatype Algorithm = force | circular | tree | grid | organic

record CustomLayoutOptions =
  opt_algorithm :: "Algorithm option"
  opt_iterations :: "real option"
  opt_repulsion :: "real option"
  opt_attraction :: "real option"
  opt_damping :: "real option"
  opt_centerX :: "real option"
  opt_centerY :: "real option"

record Options =
  algorithm :: Algorithm
  iterations :: real
  repulsion :: real
  attraction :: real
  damping :: real
  centerX :: real
  centerY :: real

record CustomLayoutEngine =
  eng_nodes :: "ref list"
  eng_edges :: "DiagramEdge list"
  options :: Options

text \<open>\<open>v || d\<close> on an optional number: the default replaces a missing value and also \<open>0\<close>.\<close>

definition or_default :: "real option \<Rightarrow> real \<Rightarrow> real" where
  "or_default v d = (case v of None \<Rightarrow> d | Some a \<Rightarrow> if a = 0 then d else a)"

definition CustomLayoutEngine_new ::
  "ref list \<Rightarrow> DiagramEdge list \<Rightarrow> CustomLayoutOptions \<Rightarrow> CustomLayoutEngine" where
  "CustomLayoutEngine_new ns es opts =
     \<lparr>eng_nodes = ns,
      eng_edges = es,
      options =
        \<lparr>algorithm = (case opt_algorithm opts of None \<Rightarrow> force | Some a \<Rightarrow> a),
         iterations = or_default (opt_iterations opts) 100,
         repulsion = or_default (opt_repulsion opts) 1000,
         attraction = or_default (opt_attraction opts) (1 / 10),
         damping = or_default (opt_damping opts) (9 / 10),
         centerX = or_default (opt_centerX opts) 400,
         centerY = or_default (opt_centerY opts) 300\<rparr>\<rparr>"

subsection \<open>Circular\<close>

definition circular_radius :: "nat \<Rightarrow> real" where
  "circular_radius n = min 300 ((real n * 50) / (2 * pi))"

definition circular_angle :: "nat \<Rightarrow> nat \<Rightarrow> real" where
  "circular_angle n index = (real index / real n) * 2 * pi - pi / 2"

definition circular_place :: "Options \<Rightarrow> nat \<Rightarrow> nat \<times> ref \<Rightarrow> store \<Rightarrow> store" where
  "circular_place opts n ir h =
     (case ir of (index, r) \<Rightarrow>
        set_position_y r (centerY opts + sin (circular_angle n index) * circular_radius n)
          (set_position_x r (centerX opts + cos (circular_angle n index) * circular_radius n) h))"

definition circularLayout :: "CustomLayoutEngine \<Rightarrow> store \<Rightarrow> ref list \<times> store" where
  "circularLayout eng h =
     (let ns = eng_nodes eng
      in (ns, fold (circular_place (options eng) (length ns)) (enumerate 0 ns) h))"

subsection \<open>Grid\<close>

definition grid_place :: "Options \<Rightarrow> nat \<Rightarrow> nat \<times> ref \<Rightarrow> store \<Rightarrow> store" where
  "grid_place opts n ir h =
     (case ir of (index, r) \<Rightarrow>
        (let cols = \<lceil>sqrt (real n)\<rceil>;
             rows = \<lceil>real n / real_of_int cols\<rceil>;
             startX = centerX opts - ((real_of_int cols - 1) * 150) / 2;
             startY = centerY opts - ((real_of_int rows - 1) * 100) / 2;
             row = \<lfloor>real index / real_of_int cols\<rfloor>;
             col = int index mod cols
         in set_position_y r (startY + real_of_int row * 100)
              (set_position_x r (startX + real_of_int col * 150) h)))"

definition gridLayout :: "CustomLayoutEngine \<Rightarrow> store \<Rightarrow> ref list \<times> store" where
  "gridLayout eng h =
     (let ns = eng_nodes eng
      in (ns, fold (grid_place (options eng) (length ns)) (enumerate 0 ns) h))"

subsection \<open>Force-directed\<close>

text \<open>
  The force accumulators are fresh objects, one per index, so they are a list of values.
  \<open>forces.find((_, idx) => nodes[idx] === n)\<close> is the accumulator at the first index
  holding the reference \<open>n\<close>; \<open>n\<close> comes from \<open>nodes.find\<close>, so that index exists.
\<close>

fun first_index :: "ref list \<Rightarrow> ref \<Rightarrow> nat" where
  "first_index [] a = 0"
| "first_index (b # bs) a = (if b = a then 0 else Suc (first_index bs a))"

definition add_force_x :: "nat \<Rightarrow> real \<Rightarrow> Position list \<Rightarrow> Position list" where
  "add_force_x i v fs = fs[i := (fs ! i)\<lparr>pos_x := pos_x (fs ! i) + v\<rparr>]"

definition add_force_y :: "nat \<Rightarrow> real \<Rightarrow> Position list \<Rightarrow> Position list" where
  "add_force_y i v fs = fs[i := (fs ! i)\<lparr>pos_y := pos_y (fs ! i) + v\<rparr>]"

definition node_pairs :: "nat \<Rightarrow> (nat \<times> nat) list" where
  "node_pairs n = concat (map (\<lambda>i. map (\<lambda>j. (i, j)) [Suc i ..< n]) [0 ..< n])"

definition repulse :: "Options \<Rightarrow> ref list \<Rightarrow> store \<Rightarrow> nat \<times> nat \<Rightarrow> Position list \<Rightarrow> Position list" where
  "repulse opts ns h ij fs =
     (case ij of (i, j) \<Rightarrow>
        (let p1 = position (h (ns ! i));
             p2 = position (h (ns ! j));
             d = distance p1 p2;
             f = repulsion opts / (d * d + 1);
             a = angle p1 p2
         in add_force_y j (sin a * f)
              (add_force_x j (cos a * f)
                 (add_force_y i (- (sin a * f))
                    (add_force_x i (- (cos a * f)) fs)))))"

definition attract :: "Options \<Rightarrow> ref list \<Rightarrow> store \<Rightarrow> DiagramEdge \<Rightarrow> Position list \<Rightarrow> Position list" where
  "attract opts ns h e fs =
     (case (find (\<lambda>r. node_id (h r) = source e) ns, find (\<lambda>r. node_id (h r) = target e) ns) of
        (Some sourceNode, Some targetNode) \<Rightarrow>
          (let d = distance (position (h sourceNode)) (position (h targetNode));
               f = attraction opts * d;
               a = angle (position (h sourceNode)) (position (h targetNode))
           in add_force_y (first_index ns targetNode) (- (sin a * f))
                (add_force_x (first_index ns targetNode) (- (cos a * f))
                   (add_force_y (first_index ns sourceNode) (sin a * f)
                      (add_force_x (first_index ns sourceNode) (cos a * f) fs))))
      | _ \<Rightarrow> fs)"

definition apply_force :: "Options \<Rightarrow> Position list \<Rightarrow> nat \<times> ref \<Rightarrow> store \<Rightarrow> store" where
  "apply_force opts fs ir h =
     (case ir of (index, r) \<Rightarrow>
        (let h1 = set_position_x r (pos_x (position (h r)) + pos_x (fs ! index) * damping opts) h;
             h2 = set_position_y r (pos_y (position (h1 r)) + pos_y (fs ! index) * damping opts) h1;
             h3 = set_position_x r (clamp (pos_x (position (h2 r))) (- 1000) 2000) h2
         in set_position_y r (clamp (pos_y (position (h3 r))) (- 1000) 2000) h3))"

definition force_iteration :: "CustomLayoutEngine \<Rightarrow> store \<Rightarrow> store" where
  "force_iteration eng h =
     (let ns = eng_nodes eng;
          forces0 = map (\<lambda>_. \<lparr>pos_x = 0, pos_y = 0\<rparr>) ns;
          forces1 = fold (repulse (options eng) ns h) (node_pairs (length ns)) forces0;
          forces2 = fold (attract (options eng) ns h) (eng_edges eng) forces1
      in fold (apply_force (options eng) forces2) (enumerate 0 ns) h)"

text \<open>The loop \<open>for (iteration = 0; iteration < iterations; iteration++)\<close> runs
  \<open>\<lceil>iterations\<rceil>\<close> times (not at all when \<open>iterations\<close> is negative).\<close>

definition forceDirectedLayout :: "CustomLayoutEngine \<Rightarrow> store \<Rightarrow> ref list \<times> store" where
  "forceDirectedLayout eng h =
     (eng_nodes eng, (force_iteration eng ^^ nat \<lceil>iterations (options eng)\<rceil>) h)"

subsection \<open>Organic\<close>

text \<open>
  \<open>Math.random\<close> is a parameter: the sequence of values it returns, two per node in
  array order. The inner engine is built with algorithm \<open>force\<close>, so its \<open>layout()\<close>
  is its \<open>forceDirectedLayout()\<close>.
\<close>

definition jitter :: "(nat \<Rightarrow> real) \<Rightarrow> nat \<times> ref \<Rightarrow> store \<Rightarrow> store" where
  "jitter rnd ir h =
     (case ir of (index, r) \<Rightarrow>
        (let h1 = set_position_x r (pos_x (position (h r)) + (rnd (2 * index) - 1 / 2) * 30) h
         in set_position_y r (pos_y (position (h1 r)) + (rnd (2 * index + 1) - 1 / 2) * 30) h1))"

definition organic_options :: CustomLayoutOptions where
  "organic_options =
     \<lparr>opt_algorithm = Some force, opt_iterations = Some 20, opt_repulsion = Some 500,
      opt_attraction = Some (5 / 100), opt_damping = Some (8 / 10),
      opt_centerX = None, opt_centerY = None\<rparr>"

definition organicLayout :: "CustomLayoutEngine \<Rightarrow> (nat \<Rightarrow> real) \<Rightarrow> store \<Rightarrow> ref list \<times> store" where
  "organicLayout eng rnd h =
     (case circularLayout eng h of
        (ns, h1) \<Rightarrow>
          forceDirectedLayout (CustomLayoutEngine_new ns (eng_edges eng) organic_options)
            (fold (jitter rnd) (enumerate 0 ns) h1))"

subsection \<open>Tree\<close>

text \<open>
  The two maps are association lists, newest binding first, so \<open>map_of\<close> is \<open>Map.get\<close>
  and consing a binding is \<open>Map.set\<close>. \<open>adjacencyList.get(k) || []\<close> is \<open>adj_get\<close>.
\<close>

definition adj_get :: "(string \<times> string list) list \<Rightarrow> string \<Rightarrow> string list" where
  "adj_get adj k = (case map_of adj k of None \<Rightarrow> [] | Some l \<Rightarrow> l)"

definition build_nodeMap :: "store \<Rightarrow> ref list \<Rightarrow> (string \<times> ref) list" where
  "build_nodeMap h ns = fold (\<lambda>r m. (node_id (h r), r) # m) ns []"

definition build_adjacencyList ::
  "store \<Rightarrow> ref list \<Rightarrow> DiagramEdge list \<Rightarrow> (string \<times> string list) list" where
  "build_adjacencyList h ns es =
     fold (\<lambda>e m. (source e, adj_get m (source e) @ [target e]) # m) es
       (fold (\<lambda>r m. (node_id (h r), []) # m) ns [])"

definition rootNodes :: "store \<Rightarrow> ref list \<Rightarrow> DiagramEdge list \<Rightarrow> ref list" where
  "rootNodes h ns es =
     (let targets = set (map target es);
          roots = filter (\<lambda>r. node_id (h r) \<notin> targets) ns
      in case ns of
           [] \<Rightarrow> roots
         | n0 # _ \<Rightarrow> if roots = [] then [n0] else roots)"

record QueueEntry =
  q_node :: ref
  q_x :: real
  q_y :: real
  q_level :: nat

definition root_entries :: "Options \<Rightarrow> ref list \<Rightarrow> QueueEntry list" where
  "root_entries opts roots =
     map (\<lambda>(index, root).
            \<lparr>q_node = root,
             q_x = centerX opts + (real index - real (length roots) / 2) * 200,
             q_y = centerY opts - 200,
             q_level = 0\<rparr>)
         (enumerate 0 roots)"

definition child_entries ::
  "(string \<times> ref) list \<Rightarrow> string set \<Rightarrow> string list \<Rightarrow> real \<Rightarrow> real \<Rightarrow> nat \<Rightarrow> QueueEntry list" where
  "child_entries nodeMap visited childIds x y level =
     (let startX = x - ((real (length childIds) - 1) * 150) / 2
      in concat (map (\<lambda>(index, childId).
                        (case map_of nodeMap childId of
                           Some childNode \<Rightarrow>
                             if childId \<notin> visited
                             then [\<lparr>q_node = childNode, q_x = startX + real index * 150,
                                    q_y = y + 100, q_level = level + 1\<rparr>]
                             else []
                         | None \<Rightarrow> []))
                     (enumerate 0 childIds)))"

definition visit :: "QueueEntry \<Rightarrow> store \<Rightarrow> store" where
  "visit q h = set_position_y (q_node q) (q_y q) (set_position_x (q_node q) (q_x q) h)"

function treeBFS ::
  "(string \<times> ref) list \<Rightarrow> (string \<times> string list) list \<Rightarrow> string set \<Rightarrow> QueueEntry list \<Rightarrow> store
     \<Rightarrow> string set \<times> store" where
  "treeBFS nodeMap adj visited [] h = (visited, h)"
| "treeBFS nodeMap adj visited (q # queue) h =
     (if node_id (h (q_node q)) \<in> visited then treeBFS nodeMap adj visited queue h
      else treeBFS nodeMap adj (insert (node_id (h (q_node q))) visited)
             (queue @ child_entries nodeMap (insert (node_id (h (q_node q))) visited)
                        (adj_get adj (node_id (h (q_node q)))) (q_x q) (q_y q) (q_level q))
             (visit q h))"
  by pat_completeness auto

text \<open>
  The loop ends: each round either drops a queue entry whose id is already visited, or
  visits an id that is the id of one of finitely many candidate nodes (those in the
  queue or in \<open>nodeMap\<close>) and was not visited before.
\<close>

lemma node_id_set_position_x [simp]: "node_id (set_position_x r v h r') = node_id (h r')"
  by (simp add: set_position_x_def)
lemma node_id_set_position_y [simp]: "node_id (set_position_y r v h r') = node_id (h r')"
  by (simp add: set_position_y_def)
lemma node_id_visit [simp]: "node_id (visit q h r) = node_id (h r)"
  by (simp add: visit_def)

lemma child_entries_nodes:
  "e \<in> set (child_entries nodeMap visited cs x y l) \<Longrightarrow> q_node e \<in> snd ` set nodeMap"
proof -
  have "map_of nodeMap c = Some r \<Longrightarrow> r \<in> snd ` set nodeMap" for c r
    by (metis map_of_SomeD snd_conv image_eqI)
  then show "e \<in> set (child_entries nodeMap visited cs x y l) \<Longrightarrow> q_node e \<in> snd ` set nodeMap"
    by (fastforce simp: child_entries_def split: option.splits if_splits)
qed

definition bfs_pending :: "(string \<times> ref) list \<Rightarrow> string set \<Rightarrow> QueueEntry list \<Rightarrow> store \<Rightarrow> string set" where
  "bfs_pending nodeMap visited queue h =
     (\<lambda>r. node_id (h r)) ` (q_node ` set queue \<union> snd ` set nodeMap) - visited"

lemma finite_bfs_pending: "finite (bfs_pending nodeMap visited queue h)"
  by (simp add: bfs_pending_def)

lemma bfs_pending_skip:
  "bfs_pending nodeMap visited queue h \<subseteq> bfs_pending nodeMap visited (q # queue) h"
  by (auto simp: bfs_pending_def)

lemma bfs_pending_visit:
  assumes "node_id (h (q_node q)) \<notin> visited"
  shows "bfs_pending nodeMap (insert (node_id (h (q_node q))) visited)
           (queue @ child_entries nodeMap V cs x y l) (visit q h)
         \<subset> bfs_pending nodeMap visited (q # queue) h"
proof -
  have "node_id (h (q_node q)) \<in> bfs_pending nodeMap visited (q # queue) h"
    using assms by (auto simp: bfs_pending_def)
  moreover have "node_id (h (q_node q)) \<notin> bfs_pending nodeMap (insert (node_id (h (q_node q))) visited)
           (queue @ child_entries nodeMap V cs x y l) (visit q h)"
    by (simp add: bfs_pending_def)
  moreover have "bfs_pending nodeMap (insert (node_id (h (q_node q))) visited)
           (queue @ child_entries nodeMap V cs x y l) (visit q h)
         \<subseteq> bfs_pending nodeMap visited (q # queue) h"
    by (auto simp: bfs_pending_def dest!: child_entries_nodes)
  ultimately show ?thesis by blast
qed

termination treeBFS
proof (relation "inv_image (less_than <*lex*> less_than)
          (\<lambda>(nodeMap, adj, visited, queue, h). (card (bfs_pending nodeMap visited queue h), length queue))")
  show "wf (inv_image (less_than <*lex*> less_than)
          (\<lambda>(nodeMap, adj, visited, queue, h). (card (bfs_pending nodeMap visited queue h), length queue)))"
    by (intro wf_inv_image wf_lex_prod wf_less_than)
next
  fix nodeMap :: "(string \<times> ref) list" and adj :: "(string \<times> string list) list"
    and visited :: "string set" and q :: QueueEntry and queue :: "QueueEntry list" and h :: store
  assume "node_id (h (q_node q)) \<in> visited"
  have "card (bfs_pending nodeMap visited queue h) \<le> card (bfs_pending nodeMap visited (q # queue) h)"
    by (rule card_mono[OF finite_bfs_pending bfs_pending_skip])
  then show "((nodeMap, adj, visited, queue, h), nodeMap, adj, visited, q # queue, h)
       \<in> inv_image (less_than <*lex*> less_than)
          (\<lambda>(nodeMap, adj, visited, queue, h). (card (bfs_pending nodeMap visited queue h), length queue))"
    by auto
next
  fix nodeMap :: "(string \<times> ref) list" and adj :: "(string \<times> string list) list"
    and visited :: "string set" and q :: QueueEntry and queue :: "QueueEntry list" and h :: store
  assume a: "node_id (h (q_node q)) \<notin> visited"
  have "card (bfs_pending nodeMap (insert (node_id (h (q_node q))) visited)
           (queue @ child_entries nodeMap (insert (node_id (h (q_node q))) visited)
                        (adj_get adj (node_id (h (q_node q)))) (q_x q) (q_y q) (q_level q)) (visit q h))
        < card (bfs_pending nodeMap visited (q # queue) h)"
    using a by (intro psubset_card_mono finite_bfs_pending bfs_pending_visit)
  then show "((nodeMap, adj, insert (node_id (h (q_node q))) visited,
         queue @ child_entries nodeMap (insert (node_id (h (q_node q))) visited)
                        (adj_get adj (node_id (h (q_node q)))) (q_x q) (q_y q) (q_level q),
         visit q h), nodeMap, adj, visited, q # queue, h)
       \<in> inv_image (less_than <*lex*> less_than)
          (\<lambda>(nodeMap, adj, visited, queue, h). (card (bfs_pending nodeMap visited queue h), length queue))"
    by auto
qed

definition treeLayout :: "CustomLayoutEngine \<Rightarrow> store \<Rightarrow> ref list \<times> store" where
  "treeLayout eng h =
     (let ns = eng_nodes eng;
          nodeMap = build_nodeMap h ns;
          adjacencyList = build_adjacencyList h ns (eng_edges eng);
          roots = rootNodes h ns (eng_edges eng)
      in (ns, snd (treeBFS nodeMap adjacencyList {} (root_entries (options eng) roots) h)))"

text \<open>The ids the loop has visited when \<open>treeLayout\<close> returns (its local \<open>visited\<close>).\<close>

definition treeVisited :: "CustomLayoutEngine \<Rightarrow> store \<Rightarrow> string set" where
  "treeVisited eng h =
     (let ns = eng_nodes eng
      in fst (treeBFS (build_nodeMap h ns) (build_adjacencyList h ns (eng_edges eng)) {}
                (root_entries (options eng) (rootNodes h ns (eng_edges eng))) h))"

subsection \<open>Dispatch\<close>

definition layout :: "CustomLayoutEngine \<Rightarrow> (nat \<Rightarrow> real) \<Rightarrow> store \<Rightarrow> ref list \<times> store" where
  "layout eng rnd h =
     (case algorithm (options eng) of
        force \<Rightarrow> forceDirectedLayout eng h
      | circular \<Rightarrow> circularLayout eng h
      | tree \<Rightarrow> treeLayout eng h
      | grid \<Rightarrow> gridLayout eng h
      | organic \<Rightarrow> organicLayout eng rnd h)"

text \<open>What the caller sees in its own array after a call: the node objects, read back.\<close>

definition read_nodes :: "store \<Rightarrow> ref list \<Rightarrow> DiagramNode list" where
  "read_nodes h ns = map h ns"

section \<open>Vocabulary of the properties and example inputs\<close>

definition extent_min_x :: "DiagramNode list \<Rightarrow> real" where
  "extent_min_x ns =
     Min (\<Union>n\<in>set ns. {pos_x (position n), pos_x (position n) + width (node_size n)})"

definition extent_min_y :: "DiagramNode list \<Rightarrow> real" where
  "extent_min_y ns =
     Min (\<Union>n\<in>set ns. {pos_y (position n), pos_y (position n) + height (node_size n)})"

definition min_position_x :: "DiagramNode list \<Rightarrow> real" where
  "min_position_x ns = Min ((\<lambda>n. pos_x (position n)) ` set ns)"

definition min_position_y :: "DiagramNode list \<Rightarrow> real" where
  "min_position_y ns = Min ((\<lambda>n. pos_y (position n)) ` set ns)"

definition example_config :: LayoutConfig where
  "example_config =
     \<lparr>diagram_type = ''flowchart'', direction = ''top-bottom'',
      spacing = \<lparr>horizontal = 50, vertical = 50, node_gap = 50\<rparr>, alignment = None\<rparr>"

definition example_node :: "string \<Rightarrow> real \<Rightarrow> real \<Rightarrow> DiagramNode" where
  "example_node i a b =
     \<lparr>node_id = i, node_type = ''rectangle'', position = \<lparr>pos_x = a, pos_y = b\<rparr>,
      node_size = \<lparr>width = 100, height = 40\<rparr>, data_label = i\<rparr>"

definition example_edge :: "string \<Rightarrow> string \<Rightarrow> string \<Rightarrow> DiagramEdge" where
  "example_edge i s t = \<lparr>edge_id = i, source = s, target = t\<rparr>"

definition example_data :: SmartDiagramData where
  "example_data =
     \<lparr>data_id = None, nodes = [example_node ''A'' 0 0, example_node ''B'' 10 0],
      edges = [example_edge ''e1'' ''A'' ''B''], layout_config = example_config,
      metadata_title = ''example''\<rparr>"

definition example_dagre :: dagre_solver where
  "example_dagre g =
     Inr (\<lambda>i. if i = ''A'' then Some (60, 30) else if i = ''B'' then Some (60, 120) else None)"

definition failing_dagre :: dagre_solver where
  "failing_dagre g = Inl (SolverFailure ''layout failed'')"

definition failing_elk :: elk_solver where
  "failing_elk g = Inl (SolverFailure ''layout failed'')"

text \<open>Two stores that differ at most in the positions of their node objects.\<close>

definition same_but_position :: "store \<Rightarrow> store \<Rightarrow> bool" where
  "same_but_position h h' = (\<forall>r. h' r = (h r)\<lparr>position := position (h' r)\<rparr>)"

definition example_centered :: SmartDiagramData where
  "example_centered = example_data\<lparr>nodes := [example_node ''A'' 50 50, example_node ''B'' 50 140]\<rparr>"

text \<open>A store with two node objects, at references 0 and 1, and engine options that
  set the algorithm only.\<close>

definition example_store :: store where
  "example_store r = (if r = 0 then example_node ''A'' 0 0 else example_node ''B'' 7 7)"

definition example_options :: "Algorithm \<Rightarrow> CustomLayoutOptions" where
  "example_options a =
     \<lparr>opt_algorithm = Some a, opt_iterations = None, opt_repulsion = None,
      opt_attraction = None, opt_damping = None, opt_centerX = None, opt_centerY = None\<rparr>"

text \<open>The point the circular layout computes for the node at an index.\<close>

definition circular_point :: "Options \<Rightarrow> nat \<Rightarrow> nat \<Rightarrow> Position" where
  "circular_point opts n index =
     \<lparr>pos_x = centerX opts + cos (circular_angle n index) * circular_radius n,
      pos_y = centerY opts + sin (circular_angle n index) * circular_radius n\<rparr>"

text \<open>
  The node ids the tree layout can reach: the ids of the detected roots, and from a
  reached id along an edge, source to target, to the id of a node.
\<close>

inductive tree_reach :: "string set \<Rightarrow> string set \<Rightarrow> DiagramEdge list \<Rightarrow> string \<Rightarrow> bool"
  for roots :: "string set" and ids :: "string set" and es :: "DiagramEdge list" where
  root: "v \<in> roots \<Longrightarrow> tree_reach roots ids es v"
| step: "tree_reach roots ids es u \<Longrightarrow> e \<in> set es \<Longrightarrow> source e = u \<Longrightarrow> target e = v
           \<Longrightarrow> v \<in> ids \<Longrightarrow> tree_reach roots ids es v"

definition tree_reachable :: "CustomLayoutEngine \<Rightarrow> store \<Rightarrow> string \<Rightarrow> bool" where
  "tree_reachable eng h v =
     tree_reach (set (map (\<lambda>r. node_id (h r)) (rootNodes h (eng_nodes eng) (eng_edges eng))))
       (set (map (\<lambda>r. node_id (h r)) (eng_nodes eng))) (eng_edges eng) v"

text \<open>In \<open>nodeMap\<close> every id is bound to a node object that has this id.\<close>

definition nodeMap_ok :: "(string \<times> ref) list \<Rightarrow> store \<Rightarrow> bool" where
  "nodeMap_ok nodeMap h = (\<forall>c r. map_of nodeMap c = Some r \<longrightarrow> node_id (h r) = c)"





text \<open>A diagram with one node of negative width, and an ELK solver that places it.\<close>

definition negative_width_data :: SmartDiagramData where
  "negative_width_data =
     \<lparr>data_id = None,
      nodes = [\<lparr>node_id = ''N'', node_type = ''rectangle'', position = \<lparr>pos_x = 0, pos_y = 0\<rparr>,
                node_size = \<lparr>width = - 30, height = 40\<rparr>, data_label = ''N''\<rparr>],
      edges = [], layout_config = example_config, metadata_title = ''example''\<rparr>"

definition negative_width_centered :: SmartDiagramData where
  "negative_width_centered =
     negative_width_data
       \<lparr>nodes := [\<lparr>node_id = ''N'', node_type = ''rectangle'', position = \<lparr>pos_x = 50, pos_y = 50\<rparr>,
                   node_size = \<lparr>width = - 30, height = 40\<rparr>, data_label = ''N''\<rparr>]\<rparr>"

definition example_elk :: elk_solver where
  "example_elk g = Inr (Some [\<lparr>elk_id = ''N'', elk_x = Some 10, elk_y = Some 10\<rparr>])"

text \<open>Engine options that ask for the circular layout around the origin.\<close>

definition origin_options :: CustomLayoutOptions where
  "origin_options =
     \<lparr>opt_algorithm = Some circular, opt_iterations = None, opt_repulsion = None,
      opt_attraction = None, opt_damping = None, opt_centerX = Some 0, opt_centerY = Some 0\<rparr>"

section \<open>Properties\<close>

lemma fold_bounds_step_minX:
  "fst (fold bounds_step ns acc) = Min (insert (fst acc) ((\<lambda>n. pos_x (position n)) ` set ns))"
proof (induction ns arbitrary: acc)
  case Nil
  then show ?case by simp
next
  case (Cons n ns)
  obtain a b c d where acc: "acc = (a, b, c, d)" by (cases acc) auto
  have "Min (insert (min a (pos_x (position n))) ((\<lambda>n. pos_x (position n)) ` set ns))
        = Min (insert a (insert (pos_x (position n)) ((\<lambda>n. pos_x (position n)) ` set ns)))"
    by (cases "set ns = {}") (simp_all add: min.assoc)
  then show ?case using Cons.IH[of "bounds_step n acc"] by (simp add: acc bounds_step_def)
qed

lemma fold_bounds_step_minY:
  "fst (snd (fold bounds_step ns acc))
     = Min (insert (fst (snd acc)) ((\<lambda>n. pos_y (position n)) ` set ns))"
proof (induction ns arbitrary: acc)
  case Nil
  then show ?case by simp
next
  case (Cons n ns)
  obtain a b c d where acc: "acc = (a, b, c, d)" by (cases acc) auto
  have "Min (insert (min b (pos_y (position n))) ((\<lambda>n. pos_y (position n)) ` set ns))
        = Min (insert b (insert (pos_y (position n)) ((\<lambda>n. pos_y (position n)) ` set ns)))"
    by (cases "set ns = {}") (simp_all add: min.assoc)
  then show ?case using Cons.IH[of "bounds_step n acc"] by (simp add: acc bounds_step_def)
qed

lemma getBounds_offset:
  assumes "ns \<noteq> []"
  shows "pos_x (offset (getBounds ns)) = - min_position_x ns + 50"
    and "pos_y (offset (getBounds ns)) = - min_position_y ns + 50"
proof -
  obtain n rest where ns: "ns = n # rest" using assms by (cases ns) auto
  obtain a b c d where f: "fold bounds_step rest
             (pos_x (position n), pos_y (position n),
              pos_x (position n) + width (node_size n),
              pos_y (position n) + height (node_size n)) = (a, b, c, d)"
    by (metis prod_cases4)
  have "a = min_position_x ns"
    using fold_bounds_step_minX[of rest "(pos_x (position n), pos_y (position n),
              pos_x (position n) + width (node_size n),
              pos_y (position n) + height (node_size n))"]
    by (simp add: f ns min_position_x_def)
  moreover have "b = min_position_y ns"
    using fold_bounds_step_minY[of rest "(pos_x (position n), pos_y (position n),
              pos_x (position n) + width (node_size n),
              pos_y (position n) + height (node_size n))"]
    by (simp add: f ns min_position_y_def)
  ultimately show "pos_x (offset (getBounds ns)) = - min_position_x ns + 50"
    and "pos_y (offset (getBounds ns)) = - min_position_y ns + 50"
    by (simp_all add: ns f)
qed

lemma Min_image_shift:
  fixes g :: "'a \<Rightarrow> real"
  assumes "finite A" "A \<noteq> {}"
  shows "Min ((\<lambda>a. g a + c) ` A) = Min (g ` A) + c"
proof -
  have "mono (\<lambda>v::real. v + c)" by (simp add: mono_def)
  from mono_Min_commute[OF this, of "g ` A"] assms
  show ?thesis by (simp add: image_image)
qed

lemma centered_min_position:
  assumes "ns \<noteq> []"
  shows "min_position_x (map (center_node (getBounds ns)) ns) = 50"
    and "min_position_y (map (center_node (getBounds ns)) ns) = 50"
proof -
  have ne: "finite (set ns)" "set ns \<noteq> {}" using assms by auto
  have "min_position_x (map (center_node (getBounds ns)) ns)
        = Min ((\<lambda>n. pos_x (position n) + pos_x (offset (getBounds ns))) ` set ns)"
    by (simp add: min_position_x_def center_node_def image_image)
  also have "\<dots> = min_position_x ns + pos_x (offset (getBounds ns))"
    unfolding min_position_x_def by (rule Min_image_shift[OF ne])
  also have "\<dots> = 50"
    unfolding getBounds_offset(1)[OF assms] by (simp only: add.assoc[symmetric] add.right_inverse add_0_left)
  finally show "min_position_x (map (center_node (getBounds ns)) ns) = 50" .
  have "min_position_y (map (center_node (getBounds ns)) ns)
        = Min ((\<lambda>n. pos_y (position n) + pos_y (offset (getBounds ns))) ` set ns)"
    by (simp add: min_position_y_def center_node_def image_image)
  also have "\<dots> = min_position_y ns + pos_y (offset (getBounds ns))"
    unfolding min_position_y_def by (rule Min_image_shift[OF ne])
  also have "\<dots> = 50"
    unfolding getBounds_offset(2)[OF assms] by (simp only: add.assoc[symmetric] add.right_inverse add_0_left)
  finally show "min_position_y (map (center_node (getBounds ns)) ns) = 50" .
qed

lemma extent_min_x_nonneg:
  assumes "ns \<noteq> []" "\<forall>n\<in>set ns. 0 \<le> width (node_size n)"
  shows "extent_min_x ns = min_position_x ns"
  unfolding extent_min_x_def min_position_x_def
proof (rule antisym)
  have fin: "finite (\<Union>n\<in>set ns. {pos_x (position n), pos_x (position n) + width (node_size n)})"
    by simp
  show "Min (\<Union>n\<in>set ns. {pos_x (position n), pos_x (position n) + width (node_size n)})
        \<le> Min ((\<lambda>n. pos_x (position n)) ` set ns)"
    using assms(1) by (intro Min_antimono) auto
  show "Min ((\<lambda>n. pos_x (position n)) ` set ns)
        \<le> Min (\<Union>n\<in>set ns. {pos_x (position n), pos_x (position n) + width (node_size n)})"
  proof (rule Min.boundedI)
    show "finite (\<Union>n\<in>set ns. {pos_x (position n), pos_x (position n) + width (node_size n)})"
      by simp
    show "(\<Union>n\<in>set ns. {pos_x (position n), pos_x (position n) + width (node_size n)}) \<noteq> {}"
      using assms(1) by auto
    fix a assume "a \<in> (\<Union>n\<in>set ns. {pos_x (position n), pos_x (position n) + width (node_size n)})"
    then obtain n where n: "n \<in> set ns" "a = pos_x (position n) \<or> a = pos_x (position n) + width (node_size n)"
      by auto
    have "Min ((\<lambda>n. pos_x (position n)) ` set ns) \<le> pos_x (position n)"
      using n(1) by (intro Min_le) auto
    moreover have "pos_x (position n) \<le> a"
      using n assms(2) by auto
    ultimately show "Min ((\<lambda>n. pos_x (position n)) ` set ns) \<le> a"
      by (rule order_trans)
  qed
qed

lemma extent_min_y_nonneg:
  assumes "ns \<noteq> []" "\<forall>n\<in>set ns. 0 \<le> height (node_size n)"
  shows "extent_min_y ns = min_position_y ns"
  unfolding extent_min_y_def min_position_y_def
proof (rule antisym)
  show "Min (\<Union>n\<in>set ns. {pos_y (position n), pos_y (position n) + height (node_size n)})
        \<le> Min ((\<lambda>n. pos_y (position n)) ` set ns)"
    using assms(1) by (intro Min_antimono) auto
  show "Min ((\<lambda>n. pos_y (position n)) ` set ns)
        \<le> Min (\<Union>n\<in>set ns. {pos_y (position n), pos_y (position n) + height (node_size n)})"
  proof (rule Min.boundedI)
    show "finite (\<Union>n\<in>set ns. {pos_y (position n), pos_y (position n) + height (node_size n)})"
      by simp
    show "(\<Union>n\<in>set ns. {pos_y (position n), pos_y (position n) + height (node_size n)}) \<noteq> {}"
      using assms(1) by auto
    fix a assume "a \<in> (\<Union>n\<in>set ns. {pos_y (position n), pos_y (position n) + height (node_size n)})"
    then obtain n where n: "n \<in> set ns" "a = pos_y (position n) \<or> a = pos_y (position n) + height (node_size n)"
      by auto
    have "Min ((\<lambda>n. pos_y (position n)) ` set ns) \<le> pos_y (position n)"
      using n(1) by (intro Min_le) auto
    moreover have "pos_y (position n) \<le> a"
      using n assms(2) by auto
    ultimately show "Min ((\<lambda>n. pos_y (position n)) ` set ns) \<le> a"
      by (rule order_trans)
  qed
qed

lemma dagre_place_keeps:
  "node_id (dagre_place res n) = node_id n" "node_size (dagre_place res n) = node_size n"
  "node_type (dagre_place res n) = node_type n" "data_label (dagre_place res n) = data_label n"
  by (simp_all add: dagre_place_def split: option.splits)

lemma elk_place_keeps:
  "node_id (elk_place res n) = node_id n" "node_size (elk_place res n) = node_size n"
  "node_type (elk_place res n) = node_type n" "data_label (elk_place res n) = data_label n"
  by (simp_all add: elk_place_def split: option.splits)

lemma center_node_keeps:
  "node_id (center_node b n) = node_id n" "node_size (center_node b n) = node_size n"
  "node_type (center_node b n) = node_type n" "data_label (center_node b n) = data_label n"
  by (simp_all add: center_node_def)

text \<open>What \<open>applyLayout\<close> returns on a non-empty diagram with an engine other than
  \<open>none\<close>: the engine's nodes, each moved by the offset of their bounds.\<close>

lemma applyLayout_result:
  assumes "applyLayout dsolve esolve data engine = Inr data'"
    and "nodes data \<noteq> []" and "engine \<noteq> none"
  obtains place where
    "data' = data\<lparr>nodes := map (center_node (getBounds (map place (nodes data)))) (map place (nodes data))\<rparr>"
    and "\<And>n. node_id (place n) = node_id n \<and> node_size (place n) = node_size n
            \<and> node_type (place n) = node_type n \<and> data_label (place n) = data_label n"
proof (cases engine)
  case dagre
  then obtain res where "dsolve (dagre_graph (nodes data) (edges data) (layout_config data)) = Inr res"
    and "data' = center_layout data dagre (map (dagre_place res) (nodes data))"
    using assms by (auto simp: applyLayout_def DagreLayoutEngine_layout_def split: sum.splits)
  then show ?thesis
    using that[of "dagre_place res"]
    by (simp add: center_layout_def DagreLayoutEngine_getBounds_def dagre_place_keeps)
next
  case elkjs
  show ?thesis
  proof (cases "esolve (elk_graph (nodes data) (edges data) (layout_config data))")
    case (Inl e)
    then have "data' = center_layout data elkjs (map (\<lambda>n. n) (nodes data))"
      using assms elkjs by (simp add: applyLayout_def ElkJSLayoutEngine_layout_def)
    then show ?thesis
      using that[of "\<lambda>n. n"] by (simp add: center_layout_def ElkJSLayoutEngine_getBounds_def)
  next
    case (Inr res)
    then have "data' = center_layout data elkjs (map (elk_place res) (nodes data))"
      using assms elkjs by (simp add: applyLayout_def ElkJSLayoutEngine_layout_def)
    then show ?thesis
      using that[of "elk_place res"]
      by (simp add: center_layout_def ElkJSLayoutEngine_getBounds_def elk_place_keeps)
  qed
next
  case none
  then show ?thesis using assms by simp
next
  case unlisted
  then have "data' = center_layout data unlisted (map (\<lambda>n. n) (nodes data))"
    using assms by (simp add: applyLayout_def)
  then show ?thesis
    using that[of "\<lambda>n. n"] by (simp add: center_layout_def ElkJSLayoutEngine_getBounds_def)
qed

text \<open>The least corner of a centred layout.\<close>

lemma applyLayout_min_corner:
  assumes "applyLayout dsolve esolve data engine = Inr data'"
    and "nodes data \<noteq> []" and "engine \<noteq> none"
  shows "min_position_x (nodes data') = 50 \<and> min_position_y (nodes data') = 50 \<and>
         ((\<forall>n\<in>set (nodes data). 0 \<le> width (node_size n) \<and> 0 \<le> height (node_size n)) \<longrightarrow>
            extent_min_x (nodes data') = 50 \<and> extent_min_y (nodes data') = 50)"
proof -
  obtain place where d: "data' = data\<lparr>nodes := map (center_node (getBounds (map place (nodes data)))) (map place (nodes data))\<rparr>"
    and keep: "\<And>n. node_id (place n) = node_id n \<and> node_size (place n) = node_size n
            \<and> node_type (place n) = node_type n \<and> data_label (place n) = data_label n"
    using applyLayout_result[OF assms] by blast
  let ?L = "map place (nodes data)"
  have L: "?L \<noteq> []" using assms(2) by simp
  have n': "nodes data' = map (center_node (getBounds ?L)) ?L" by (simp add: d)
  have mx: "min_position_x (nodes data') = 50" and my: "min_position_y (nodes data') = 50"
    unfolding n' by (rule centered_min_position[OF L])+
  have ne': "nodes data' \<noteq> []" using L by (simp add: n')
  {
    assume nonneg: "\<forall>n\<in>set (nodes data). 0 \<le> width (node_size n) \<and> 0 \<le> height (node_size n)"
    have "\<forall>n\<in>set (nodes data'). 0 \<le> width (node_size n) \<and> 0 \<le> height (node_size n)"
      using nonneg by (auto simp: n' center_node_keeps keep)
    then have "extent_min_x (nodes data') = 50 \<and> extent_min_y (nodes data') = 50"
      using extent_min_x_nonneg[OF ne'] extent_min_y_nonneg[OF ne'] mx my by simp
  }
  then show ?thesis using mx my by blast
qed

text \<open>The dependency-graph engine and the centring on the example diagram.\<close>

lemma example_applyLayout:
  "applyLayout example_dagre failing_elk example_data dagre = Inr example_centered"
  by (simp add: applyLayout_def DagreLayoutEngine_layout_def example_dagre_def example_data_def
      example_node_def dagre_place_def center_layout_def DagreLayoutEngine_getBounds_def
      bounds_step_def center_node_def example_centered_def)

text \<open>
  Claim C1, as amended. For a non-empty node list and an engine choice other than
  \<open>none\<close>, the diagram \<open>applyLayout\<close> returns has least node position x and least node
  position y equal to the padding 50: the offset \<open>(-minX + 50, -minY + 50)\<close> of the
  bounds of the engine's nodes is added to every position. When no width and no height
  is negative, the least x and y over the node extents (position up to position plus
  size) are 50 as well. A diagram is returned unless the engine is \<open>dagre\<close> and its
  solver throws.
\<close>

theorem applyLayout_min_corner_is_padding:
  assumes "nodes data \<noteq> []" and "engine \<noteq> none"
  shows "(applyLayout dsolve esolve data engine = Inr data' \<longrightarrow>
            min_position_x (nodes data') = 50 \<and> min_position_y (nodes data') = 50 \<and>
            ((\<forall>n\<in>set (nodes data). 0 \<le> width (node_size n) \<and> 0 \<le> height (node_size n)) \<longrightarrow>
               extent_min_x (nodes data') = 50 \<and> extent_min_y (nodes data') = 50))
       \<and> ((engine = dagre \<longrightarrow>
              (\<exists>res. dsolve (dagre_graph (nodes data) (edges data) (layout_config data)) = Inr res)) \<longrightarrow>
            (\<exists>d. applyLayout dsolve esolve data engine = Inr d))"
proof -
  have "\<exists>d. applyLayout dsolve esolve data engine = Inr d"
    if "engine = dagre \<longrightarrow>
          (\<exists>res. dsolve (dagre_graph (nodes data) (edges data) (layout_config data)) = Inr res)"
    using that by (cases engine) (auto simp: applyLayout_def DagreLayoutEngine_layout_def)
  then show ?thesis using applyLayout_min_corner[OF _ assms] by blast
qed

text \<open>The theorem at a two-node diagram laid out by the dependency-graph engine.\<close>

theorem applyLayout_min_corner_witness:
  "nodes example_data \<noteq> [] \<and> dagre \<noteq> none
   \<and> (\<exists>res. example_dagre (dagre_graph (nodes example_data) (edges example_data)
                  (layout_config example_data)) = Inr res)
   \<and> applyLayout example_dagre failing_elk example_data dagre = Inr example_centered
   \<and> list_all (\<lambda>n. 0 \<le> width (node_size n) \<and> 0 \<le> height (node_size n)) (nodes example_data)
   \<and> min_position_x (nodes example_centered) = 50
   \<and> min_position_y (nodes example_centered) = 50
   \<and> extent_min_x (nodes example_centered) = 50
   \<and> extent_min_y (nodes example_centered) = 50"
proof -
  have h2: "nodes example_data \<noteq> []" by (simp add: example_data_def)
  have h3: "dagre \<noteq> none" by simp
  have h4: "\<forall>n\<in>set (nodes example_data). 0 \<le> width (node_size n) \<and> 0 \<le> height (node_size n)"
    by (simp add: example_data_def example_node_def)
  have h5: "\<exists>res. example_dagre (dagre_graph (nodes example_data) (edges example_data)
                  (layout_config example_data)) = Inr res"
    by (simp add: example_dagre_def)
  from applyLayout_min_corner_is_padding[OF h2 h3, of example_dagre failing_elk example_centered]
    example_applyLayout h2 h3 h4 h5
  show ?thesis by (simp add: list_all_iff)
qed

text \<open>
  The claim as first stated, with the least x over the node extents and no condition on
  the sizes, fails: \<open>getBounds\<close> takes the least position, so a node of width -30 placed
  at x = 50 reaches down to x = 20.
\<close>

theorem applyLayout_negative_width_counterexample:
  "nodes negative_width_data \<noteq> [] \<and> elkjs \<noteq> none
   \<and> applyLayout failing_dagre example_elk negative_width_data elkjs = Inr negative_width_centered
   \<and> extent_min_x (nodes negative_width_centered) = 20
   \<and> extent_min_x (nodes negative_width_centered) \<noteq> 50"
  by (simp add: applyLayout_def ElkJSLayoutEngine_layout_def example_elk_def negative_width_data_def
      negative_width_centered_def elk_place_def center_layout_def ElkJSLayoutEngine_getBounds_def
      center_node_def extent_min_x_def)

text \<open>
  Claim C6. \<open>applyLayout\<close> is the identity when the node list is empty or the engine
  choice is \<open>none\<close>: it returns the input data itself.
\<close>

theorem applyLayout_identity:
  "engine = none \<or> nodes data = [] \<Longrightarrow> applyLayout dsolve esolve data engine = Inr data"
  by (simp add: applyLayout_def)

text \<open>The theorem at a two-node diagram with engine \<open>none\<close>, and at the same diagram
  without its nodes with engine \<open>dagre\<close>.\<close>

theorem applyLayout_identity_witness:
  "applyLayout example_dagre failing_elk example_data none = Inr example_data
   \<and> nodes (example_data\<lparr>nodes := []\<rparr>) = []
   \<and> applyLayout example_dagre failing_elk (example_data\<lparr>nodes := []\<rparr>) dagre
       = Inr (example_data\<lparr>nodes := []\<rparr>)"
proof -
  have h: "nodes (example_data\<lparr>nodes := []\<rparr>) = []" by simp
  show ?thesis
    using applyLayout_identity[of none example_data example_dagre failing_elk]
      applyLayout_identity[of dagre "example_data\<lparr>nodes := []\<rparr>" example_dagre failing_elk] h
    by simp
qed

text \<open>
  Claim C9. \<open>getLineIntersection\<close> returns no point whenever the determinant of the two
  segments has absolute value below \<open>1e-10\<close> (parallel segments), and on the segments
  (0,0)-(10,10) and (0,10)-(10,0) it returns the point (5,5).
\<close>

theorem getLineIntersection_parallel_and_crossing:
  "(\<bar>intersection_denom a1 a2 b1 b2\<bar> < 1 / 10 ^ 10 \<longrightarrow> getLineIntersection a1 a2 b1 b2 = None)
   \<and> getLineIntersection \<lparr>pos_x = 0, pos_y = 0\<rparr> \<lparr>pos_x = 10, pos_y = 10\<rparr>
         \<lparr>pos_x = 0, pos_y = 10\<rparr> \<lparr>pos_x = 10, pos_y = 0\<rparr>
       = Some \<lparr>pos_x = 5, pos_y = 5\<rparr>"
  by (simp add: getLineIntersection_def intersection_denom_def Let_def)

text \<open>The theorem at the parallel segments (0,0)-(10,0) and (0,5)-(10,5).\<close>

theorem getLineIntersection_parallel_witness:
  "\<bar>intersection_denom \<lparr>pos_x = 0, pos_y = 0\<rparr> \<lparr>pos_x = 10, pos_y = 0\<rparr>
         \<lparr>pos_x = 0, pos_y = 5\<rparr> \<lparr>pos_x = 10, pos_y = 5\<rparr>\<bar> < 1 / 10 ^ 10
   \<and> getLineIntersection \<lparr>pos_x = 0, pos_y = 0\<rparr> \<lparr>pos_x = 10, pos_y = 0\<rparr>
         \<lparr>pos_x = 0, pos_y = 5\<rparr> \<lparr>pos_x = 10, pos_y = 5\<rparr> = None"
proof -
  have h: "\<bar>intersection_denom \<lparr>pos_x = 0, pos_y = 0\<rparr> \<lparr>pos_x = 10, pos_y = 0\<rparr>
         \<lparr>pos_x = 0, pos_y = 5\<rparr> \<lparr>pos_x = 10, pos_y = 5\<rparr>\<bar> < 1 / 10 ^ 10"
    by (simp add: intersection_denom_def)
  from getLineIntersection_parallel_and_crossing[of "\<lparr>pos_x = 0, pos_y = 0\<rparr>" "\<lparr>pos_x = 10, pos_y = 0\<rparr>"
         "\<lparr>pos_x = 0, pos_y = 5\<rparr>" "\<lparr>pos_x = 10, pos_y = 5\<rparr>"] h
  show ?thesis by blast
qed

text \<open>The constraint-graph engine catches a failing solve step.\<close>

lemma ElkJSLayoutEngine_fails_open:
  "esolve (elk_graph ns es config) = Inl e \<Longrightarrow> ElkJSLayoutEngine_layout esolve ns es config = ns"
  by (simp add: ElkJSLayoutEngine_layout_def)

text \<open>
  Claim C3. A failing solve step: the constraint-graph engine returns its input nodes,
  the dependency-graph engine does not. Its \<open>layout\<close> has no handler around the solver
  call, so the failure leaves \<open>layout\<close>, and \<open>applyLayout\<close> with it, as an error.
\<close>

theorem DagreLayoutEngine_propagates_failure:
  "DagreLayoutEngine_layout failing_dagre (nodes example_data) (edges example_data)
       (layout_config example_data) = Inl (SolverFailure ''layout failed'')
   \<and> applyLayout failing_dagre failing_elk example_data dagre = Inl (SolverFailure ''layout failed'')
   \<and> ElkJSLayoutEngine_layout failing_elk (nodes example_data) (edges example_data)
       (layout_config example_data) = nodes example_data"
  by (simp add: DagreLayoutEngine_layout_def applyLayout_def failing_dagre_def failing_elk_def
      ElkJSLayoutEngine_layout_def example_data_def)

text \<open>The custom engine writes positions only, and returns the array it was given.\<close>

lemma same_but_position_refl: "same_but_position h h"
  by (simp add: same_but_position_def)

lemma same_but_position_trans:
  "same_but_position h h1 \<Longrightarrow> same_but_position h1 h2 \<Longrightarrow> same_but_position h h2"
  unfolding same_but_position_def
proof
  fix r
  assume a: "\<forall>r. h1 r = (h r)\<lparr>position := position (h1 r)\<rparr>"
    and b: "\<forall>r. h2 r = (h1 r)\<lparr>position := position (h2 r)\<rparr>"
  have "h2 r = (h1 r)\<lparr>position := position (h2 r)\<rparr>" using b by blast
  also have "h1 r = (h r)\<lparr>position := position (h1 r)\<rparr>" using a by blast
  finally show "h2 r = (h r)\<lparr>position := position (h2 r)\<rparr>" by simp
qed

lemma same_but_position_set_x: "same_but_position h (set_position_x r v h)"
  by (simp add: same_but_position_def set_position_x_def)

lemma same_but_position_set_y: "same_but_position h (set_position_y r v h)"
  by (simp add: same_but_position_def set_position_y_def)

lemma same_but_position_then_x:
  "same_but_position h h1 \<Longrightarrow> same_but_position h (set_position_x r v h1)"
  using same_but_position_trans same_but_position_set_x by blast

lemma same_but_position_then_y:
  "same_but_position h h1 \<Longrightarrow> same_but_position h (set_position_y r v h1)"
  using same_but_position_trans same_but_position_set_y by blast

lemma same_but_position_fold:
  assumes "\<And>a h. same_but_position h (f a h)"
  shows "same_but_position h (fold f xs h)"
proof (induction xs arbitrary: h)
  case Nil
  show ?case by (simp add: same_but_position_refl)
next
  case (Cons a xs)
  show ?case
    using same_but_position_trans[OF assms[of h a] Cons.IH[of "f a h"]] by simp
qed

lemma same_but_position_funpow:
  assumes "\<And>h. same_but_position h (f h)"
  shows "same_but_position h ((f ^^ k) h)"
proof (induction k)
  case 0
  show ?case by (simp add: same_but_position_refl)
next
  case (Suc k)
  show ?case using same_but_position_trans[OF Suc assms[of "(f ^^ k) h"]] by simp
qed

lemma same_but_position_circular_place: "same_but_position h (circular_place opts n ir h)"
  unfolding circular_place_def
  by (cases ir)
    (simp, intro same_but_position_then_x same_but_position_then_y same_but_position_refl)

lemma same_but_position_grid_place: "same_but_position h (grid_place opts n ir h)"
  unfolding grid_place_def Let_def
  by (cases ir)
    (simp, intro same_but_position_then_x same_but_position_then_y same_but_position_refl)

lemma same_but_position_apply_force: "same_but_position h (apply_force opts fs ir h)"
  unfolding apply_force_def Let_def
  by (cases ir)
    (simp, intro same_but_position_then_x same_but_position_then_y same_but_position_refl)

lemma same_but_position_jitter: "same_but_position h (jitter rnd ir h)"
  unfolding jitter_def Let_def
  by (cases ir)
    (simp, intro same_but_position_then_x same_but_position_then_y same_but_position_refl)

lemma same_but_position_visit: "same_but_position h (visit q h)"
  unfolding visit_def
  by (intro same_but_position_then_x same_but_position_then_y same_but_position_refl)

lemma same_but_position_treeBFS:
  "same_but_position h (snd (treeBFS nodeMap adj visited queue h))"
proof (induction nodeMap adj visited queue h rule: treeBFS.induct)
  case (1 nodeMap adj visited h)
  show ?case by (simp add: same_but_position_refl)
next
  case (2 nodeMap adj visited q queue h)
  show ?case
  proof (cases "node_id (h (q_node q)) \<in> visited")
    case True
    then show ?thesis using 2(1) by simp
  next
    case False
    then show ?thesis
      using same_but_position_trans[OF same_but_position_visit[of h q] 2(2)[OF False]] by simp
  qed
qed

lemma circularLayout_keeps:
  "fst (circularLayout eng h) = eng_nodes eng" "same_but_position h (snd (circularLayout eng h))"
  by (simp_all add: circularLayout_def Let_def same_but_position_fold same_but_position_circular_place)

lemma gridLayout_keeps:
  "fst (gridLayout eng h) = eng_nodes eng" "same_but_position h (snd (gridLayout eng h))"
  by (simp_all add: gridLayout_def Let_def same_but_position_fold same_but_position_grid_place)

lemma forceDirectedLayout_keeps:
  "fst (forceDirectedLayout eng h) = eng_nodes eng"
  "same_but_position h (snd (forceDirectedLayout eng h))"
  by (simp_all add: forceDirectedLayout_def force_iteration_def Let_def
      same_but_position_funpow same_but_position_fold same_but_position_apply_force)

lemma treeLayout_keeps:
  "fst (treeLayout eng h) = eng_nodes eng" "same_but_position h (snd (treeLayout eng h))"
  by (simp_all add: treeLayout_def Let_def same_but_position_treeBFS)

lemma organicLayout_keeps:
  "fst (organicLayout eng rnd h) = eng_nodes eng"
  "same_but_position h (snd (organicLayout eng rnd h))"
proof -
  obtain ns h1 where c: "circularLayout eng h = (ns, h1)" by (cases "circularLayout eng h")
  have ns: "ns = eng_nodes eng" and h1: "same_but_position h h1"
    using circularLayout_keeps[where eng=eng and h=h] by (simp_all add: c)
  let ?inner = "CustomLayoutEngine_new ns (eng_edges eng) organic_options"
  let ?h2 = "fold (jitter rnd) (enumerate 0 ns) h1"
  have o: "organicLayout eng rnd h = forceDirectedLayout ?inner ?h2"
    by (simp add: organicLayout_def c)
  have "same_but_position h1 ?h2"
    by (rule same_but_position_fold) (rule same_but_position_jitter)
  then have "same_but_position h ?h2" using h1 same_but_position_trans by blast
  then show "same_but_position h (snd (organicLayout eng rnd h))"
    unfolding o using forceDirectedLayout_keeps(2)[where h="?h2" and eng="?inner"] same_but_position_trans by blast
  show "fst (organicLayout eng rnd h) = eng_nodes eng"
    unfolding o by (simp add: forceDirectedLayout_keeps(1) CustomLayoutEngine_new_def ns)
qed

lemma layout_keeps:
  "fst (layout eng rnd h) = eng_nodes eng" "same_but_position h (snd (layout eng rnd h))"
  by (cases "algorithm (options eng)";
      simp add: layout_def circularLayout_keeps gridLayout_keeps forceDirectedLayout_keeps
        treeLayout_keeps organicLayout_keeps)+

lemma same_but_position_read:
  assumes "same_but_position h h'"
  shows "map node_id (read_nodes h' ns) = map node_id (read_nodes h ns)"
    and "map node_size (read_nodes h' ns) = map node_size (read_nodes h ns)"
proof -
  have "node_id (h' r) = node_id (h r) \<and> node_size (h' r) = node_size (h r)" for r
  proof -
    have "h' r = (h r)\<lparr>position := position (h' r)\<rparr>"
      using assms by (simp add: same_but_position_def)
    then show ?thesis by (metis DiagramNode.select_convs(1,4) DiagramNode.surjective DiagramNode.update_convs(3))
  qed
  then show "map node_id (read_nodes h' ns) = map node_id (read_nodes h ns)"
    and "map node_size (read_nodes h' ns) = map node_size (read_nodes h ns)"
    by (simp_all add: read_nodes_def)
qed

lemma applyLayout_keeps:
  assumes "applyLayout dsolve esolve data engine = Inr data'"
  shows "length (nodes data') = length (nodes data)
       \<and> map node_id (nodes data') = map node_id (nodes data)
       \<and> map node_size (nodes data') = map node_size (nodes data)
       \<and> edges data' = edges data
       \<and> data' = data\<lparr>nodes := nodes data'\<rparr>"
proof (cases "engine = none \<or> nodes data = []")
  case True
  then have "data' = data" using assms by (simp add: applyLayout_def)
  then show ?thesis by simp
next
  case False
  then have ne: "nodes data \<noteq> []" and en: "engine \<noteq> none" by auto
  obtain place where d: "data' = data\<lparr>nodes := map (center_node (getBounds (map place (nodes data)))) (map place (nodes data))\<rparr>"
    and keep: "\<And>n. node_id (place n) = node_id n \<and> node_size (place n) = node_size n
            \<and> node_type (place n) = node_type n \<and> data_label (place n) = data_label n"
    using applyLayout_result[OF assms ne en] by blast
  show ?thesis
    by (simp add: d center_node_keeps keep comp_def)
qed

text \<open>
  Claim C5. Every layout operation preserves everything but positions. The custom
  engine, with any of its five algorithms, returns the array of node objects it was
  given, and in the store each object differs from before at most in its position: same
  count, ids and sizes; it returns no edges and writes to none. \<open>applyLayout\<close>, with any
  engine, returns a diagram with as many nodes, the same ids and sizes in the same
  order, the same edge list, and every other field of the diagram as it was.
\<close>

theorem layouts_preserve_all_but_positions:
  "fst (layout eng rnd h) = eng_nodes eng
   \<and> length (fst (layout eng rnd h)) = length (eng_nodes eng)
   \<and> same_but_position h (snd (layout eng rnd h))
   \<and> map node_id (read_nodes (snd (layout eng rnd h)) (fst (layout eng rnd h)))
       = map node_id (read_nodes h (eng_nodes eng))
   \<and> map node_size (read_nodes (snd (layout eng rnd h)) (fst (layout eng rnd h)))
       = map node_size (read_nodes h (eng_nodes eng))
   \<and> (applyLayout dsolve esolve data engine = Inr data' \<longrightarrow>
        length (nodes data') = length (nodes data)
        \<and> map node_id (nodes data') = map node_id (nodes data)
        \<and> map node_size (nodes data') = map node_size (nodes data)
        \<and> edges data' = edges data
        \<and> data' = data\<lparr>nodes := nodes data'\<rparr>)"
  using layout_keeps[where eng=eng and rnd=rnd and h=h]
    same_but_position_read[OF layout_keeps(2)[where eng=eng and rnd=rnd and h=h]]
    applyLayout_keeps[of dsolve esolve data engine data']
  by simp

text \<open>The theorem at the example diagram with the dependency-graph engine, and at the
  tree algorithm on the two-node store.\<close>

theorem layouts_preserve_witness:
  "applyLayout example_dagre failing_elk example_data dagre = Inr example_centered
   \<and> length (nodes example_centered) = length (nodes example_data)
   \<and> map node_id (nodes example_centered) = map node_id (nodes example_data)
   \<and> map node_size (nodes example_centered) = map node_size (nodes example_data)
   \<and> edges example_centered = edges example_data
   \<and> fst (layout (CustomLayoutEngine_new [0, 1] [] (example_options tree)) (\<lambda>_. 0) example_store)
       = [0, 1]
   \<and> map node_id (read_nodes
         (snd (layout (CustomLayoutEngine_new [0, 1] [] (example_options tree)) (\<lambda>_. 0) example_store))
         [0, 1]) = [''A'', ''B'']"
proof -
  have e: "eng_nodes (CustomLayoutEngine_new [0, 1] [] (example_options tree)) = [0, 1]"
    by (simp add: CustomLayoutEngine_new_def)
  have r: "map node_id (read_nodes example_store [0, 1]) = [''A'', ''B'']"
    by (simp add: read_nodes_def example_store_def example_node_def)
  from layouts_preserve_all_but_positions[of "CustomLayoutEngine_new [0, 1] [] (example_options tree)"
      "\<lambda>_. 0" example_store example_dagre failing_elk example_data dagre example_centered]
    example_applyLayout e r
  show ?thesis by (elim conjE) simp
qed

lemma circular_place_apply:
  "circular_place opts n (i, r) h r' =
     (if r' = r then (h r)\<lparr>position := circular_point opts n i\<rparr> else h r')"
  by (simp add: circular_place_def set_position_x_def set_position_y_def circular_point_def)

lemma circular_fold_frame:
  "r \<notin> set ns \<Longrightarrow> fold (circular_place opts n) (enumerate i ns) h r = h r"
  by (induction ns arbitrary: i h) (simp_all add: circular_place_apply)

lemma circular_fold_some_point:
  "r \<in> set ns \<Longrightarrow>
     \<exists>j. position (fold (circular_place opts n) (enumerate i ns) h r) = circular_point opts n j"
proof (induction ns arbitrary: i h)
  case Nil
  then show ?case by simp
next
  case (Cons a ns)
  show ?case
  proof (cases "r \<in> set ns")
    case True
    then show ?thesis using Cons.IH by simp
  next
    case False
    then have "r = a" using Cons.prems by simp
    then show ?thesis using False
      by (auto simp: circular_fold_frame circular_place_apply)
  qed
qed

lemma circular_fold_distinct:
  "distinct ns \<Longrightarrow> k < length ns \<Longrightarrow>
     position (fold (circular_place opts n) (enumerate i ns) h (ns ! k)) = circular_point opts n (i + k)"
proof (induction ns arbitrary: i h k)
  case Nil
  then show ?case by simp
next
  case (Cons a ns)
  show ?case
  proof (cases k)
    case 0
    then show ?thesis using Cons.prems
      by (simp add: circular_fold_frame circular_place_apply)
  next
    case (Suc k')
    then show ?thesis using Cons.prems Cons.IH[of k' "Suc i" "circular_place opts n (i, a) h"]
      by simp
  qed
qed

lemma circular_radius_nonneg: "0 \<le> circular_radius n"
  by (simp add: circular_radius_def)

lemma distance_circular_point:
  "distance \<lparr>pos_x = centerX opts, pos_y = centerY opts\<rparr> (circular_point opts n j) = circular_radius n"
proof -
  have "(cos (circular_angle n j) * circular_radius n)\<^sup>2 + (sin (circular_angle n j) * circular_radius n)\<^sup>2
        = (circular_radius n)\<^sup>2 * ((cos (circular_angle n j))\<^sup>2 + (sin (circular_angle n j))\<^sup>2)"
    by (simp only: power_mult_distrib distrib_left mult.commute)
  also have "\<dots> = (circular_radius n)\<^sup>2"
    by (simp only: cos_squared_eq) simp
  finally show ?thesis
    using circular_radius_nonneg[of n] by (simp add: distance_def circular_point_def)
qed

text \<open>The centre an engine holds is the one passed to the constructor, except that a
  missing coordinate and the coordinate 0 are replaced by the default (400 for x, 300
  for y).\<close>

lemma CustomLayoutEngine_new_center:
  "centerX (options (CustomLayoutEngine_new ns es opts)) = or_default (opt_centerX opts) 400"
  "centerY (options (CustomLayoutEngine_new ns es opts)) = or_default (opt_centerY opts) 300"
  by (simp_all add: CustomLayoutEngine_new_def)

text \<open>
  After the circular layout every node of the array lies at distance
  \<open>min(300, n*50/(2*pi))\<close> from the centre the engine holds in its options
  (\<open>this.options.centerX\<close>, \<open>this.options.centerY\<close>), where \<open>n\<close> is the length of the
  array; when the array holds each node object once, node \<open>k\<close> is at angle
  \<open>(k/n)*2*pi - pi/2\<close>, in array order; and the edges have no effect on the outcome.
\<close>

theorem circularLayout_on_circle:
  assumes "circularLayout eng h = (out, h')"
  shows "(\<forall>r\<in>set (eng_nodes eng).
            distance \<lparr>pos_x = centerX (options eng), pos_y = centerY (options eng)\<rparr> (position (h' r))
              = min 300 (real (length (eng_nodes eng)) * 50 / (2 * pi)))
       \<and> (distinct (eng_nodes eng) \<longrightarrow>
            (\<forall>k<length (eng_nodes eng).
               position (h' (eng_nodes eng ! k))
                 = \<lparr>pos_x = centerX (options eng)
                       + cos ((real k / real (length (eng_nodes eng))) * 2 * pi - pi / 2)
                         * min 300 (real (length (eng_nodes eng)) * 50 / (2 * pi)),
                    pos_y = centerY (options eng)
                       + sin ((real k / real (length (eng_nodes eng))) * 2 * pi - pi / 2)
                         * min 300 (real (length (eng_nodes eng)) * 50 / (2 * pi))\<rparr>))
       \<and> circularLayout (eng\<lparr>eng_edges := es\<rparr>) h = (out, h')"
proof -
  let ?ns = "eng_nodes eng" and ?n = "length (eng_nodes eng)"
  have h': "h' = fold (circular_place (options eng) ?n) (enumerate 0 ?ns) h"
    using assms by (auto simp: circularLayout_def Let_def)
  have a: "distance \<lparr>pos_x = centerX (options eng), pos_y = centerY (options eng)\<rparr> (position (h' r))
              = min 300 (real ?n * 50 / (2 * pi))" if rin: "r \<in> set ?ns" for r
  proof -
    obtain j where "position (h' r) = circular_point (options eng) ?n j"
      unfolding h' using circular_fold_some_point[OF rin] by blast
    then show ?thesis by (simp add: distance_circular_point) (simp add: circular_radius_def)
  qed
  have b: "position (h' (?ns ! k))
                 = \<lparr>pos_x = centerX (options eng)
                       + cos ((real k / real ?n) * 2 * pi - pi / 2) * min 300 (real ?n * 50 / (2 * pi)),
                    pos_y = centerY (options eng)
                       + sin ((real k / real ?n) * 2 * pi - pi / 2) * min 300 (real ?n * 50 / (2 * pi))\<rparr>"
    if d: "distinct ?ns" and kl: "k < ?n" for k
    unfolding h' using circular_fold_distinct[OF d kl, of "options eng" ?n 0 h]
    by (simp add: circular_point_def circular_angle_def circular_radius_def)
  have c: "circularLayout (eng\<lparr>eng_edges := es\<rparr>) h = (out, h')"
    using assms by (auto simp: circularLayout_def Let_def)
  show ?thesis using a b c by blast
qed

text \<open>Facts for evaluating the examples.\<close>

lemma small_radius: "0 < c \<Longrightarrow> c \<le> 600 \<Longrightarrow> min 300 (c / pi) = c / pi"
proof -
  assume c: "0 < c" "c \<le> 600"
  have "c / pi \<le> c / 2" using c pi_ge_two by (intro divide_left_mono) auto
  also have "\<dots> \<le> 300" using c by simp
  finally show ?thesis by simp
qed

lemma example_engine_fields:
  "eng_nodes (CustomLayoutEngine_new ns es (example_options a)) = ns"
  "eng_edges (CustomLayoutEngine_new ns es (example_options a)) = es"
  "centerX (options (CustomLayoutEngine_new ns es (example_options a))) = 400"
  "centerY (options (CustomLayoutEngine_new ns es (example_options a))) = 300"
  "algorithm (options (CustomLayoutEngine_new ns es (example_options a))) = a"
  by (simp_all add: CustomLayoutEngine_new_def example_options_def or_default_def)

text \<open>The theorem at the two-node store: the second node is placed at the bottom of a
  circle of radius \<open>50 / pi\<close> around (400, 300).\<close>

theorem circularLayout_on_circle_witness:
  "circularLayout (CustomLayoutEngine_new [0, 1] [] (example_options circular)) example_store
     = (fst (circularLayout (CustomLayoutEngine_new [0, 1] [] (example_options circular)) example_store),
        snd (circularLayout (CustomLayoutEngine_new [0, 1] [] (example_options circular)) example_store))
   \<and> distinct [0::nat, 1] \<and> (1::nat) < length [0::nat, 1] \<and> (1::nat) \<in> set [0, 1]
   \<and> distance \<lparr>pos_x = 400, pos_y = 300\<rparr>
         (position (snd (circularLayout (CustomLayoutEngine_new [0, 1] [] (example_options circular))
                      example_store) 1)) = 50 / pi
   \<and> position (snd (circularLayout (CustomLayoutEngine_new [0, 1] [] (example_options circular))
                      example_store) 1) = \<lparr>pos_x = 400, pos_y = 300 + 50 / pi\<rparr>"
proof -
  let ?E = "CustomLayoutEngine_new [0, 1] [] (example_options circular)"
  have r: "min 300 (100 / (2 * pi)) = 50 / pi" using small_radius[of 50] by simp
  have a: "1 / 2 * 2 * pi - pi / 2 = pi / 2" by simp
  note t = circularLayout_on_circle[of ?E example_store "fst (circularLayout ?E example_store)"
      "snd (circularLayout ?E example_store)" "[]", OF prod.collapse[symmetric]]
  have d: "distance \<lparr>pos_x = 400, pos_y = 300\<rparr> (position (snd (circularLayout ?E example_store) 1)) = 50 / pi"
    using t r by (simp add: example_engine_fields)
  have p: "position (snd (circularLayout ?E example_store) 1) = \<lparr>pos_x = 400, pos_y = 300 + 50 / pi\<rparr>"
  proof -
    have "\<forall>k<2. position (snd (circularLayout ?E example_store) ([0, 1] ! k))
                 = \<lparr>pos_x = 400 + cos ((real k / 2) * 2 * pi - pi / 2) * (50 / pi),
                    pos_y = 300 + sin ((real k / 2) * 2 * pi - pi / 2) * (50 / pi)\<rparr>"
      using t r by (simp add: example_engine_fields)
    then have "position (snd (circularLayout ?E example_store) ([0, 1] ! 1))
                 = \<lparr>pos_x = 400 + cos ((real 1 / 2) * 2 * pi - pi / 2) * (50 / pi),
                    pos_y = 300 + sin ((real 1 / 2) * 2 * pi - pi / 2) * (50 / pi)\<rparr>"
      by (metis one_less_numeral_iff semiring_norm(76))
    then show ?thesis by (simp add: a)
  qed
  show ?thesis using d p by simp
qed

text \<open>The circular layout of one node, asked for around the origin.\<close>

lemma origin_engine_fields:
  "eng_nodes (CustomLayoutEngine_new ns es origin_options) = ns"
  "centerX (options (CustomLayoutEngine_new ns es origin_options)) = 400"
  "centerY (options (CustomLayoutEngine_new ns es origin_options)) = 300"
  "algorithm (options (CustomLayoutEngine_new ns es origin_options)) = circular"
  by (simp_all add: CustomLayoutEngine_new_def origin_options_def or_default_def)

lemma far_from_origin:
  "distance \<lparr>pos_x = 0, pos_y = 0\<rparr> \<lparr>pos_x = 400, pos_y = 300 - 25 / pi\<rparr> \<noteq> 25 / pi"
proof -
  have "25 / pi \<le> 25 / 2" using pi_ge_two by (intro divide_left_mono) auto
  then have small: "25 / pi < 400" by simp
  have "(400::real) = sqrt (400\<^sup>2)" by simp
  also have "\<dots> \<le> sqrt (400\<^sup>2 + (300 - 25 / pi)\<^sup>2)"
    by (rule real_sqrt_le_mono) simp
  finally have "400 \<le> distance \<lparr>pos_x = 0, pos_y = 0\<rparr> \<lparr>pos_x = 400, pos_y = 300 - 25 / pi\<rparr>"
    by (simp add: distance_def)
  then show ?thesis using small by linarith
qed

text \<open>
  Claim C7. The circle is drawn around the centre the engine holds, and that is not always
  the configured one: the constructor reads \<open>options.centerX || 400\<close> and
  \<open>options.centerY || 300\<close>, so a configured coordinate 0 is replaced by the default. With
  the centre configured as (0, 0) the single node A is placed at (400, 300 - 25/pi), on
  the circle of radius 25/pi around (400, 300); its distance from the configured centre
  is not 25/pi.
\<close>

theorem circularLayout_ignores_origin_centre:
  "opt_centerX origin_options = Some 0 \<and> opt_centerY origin_options = Some 0
   \<and> centerX (options (CustomLayoutEngine_new [0] [] origin_options)) = 400
   \<and> centerY (options (CustomLayoutEngine_new [0] [] origin_options)) = 300
   \<and> read_nodes (snd (layout (CustomLayoutEngine_new [0] [] origin_options) (\<lambda>_. 0) example_store)) [0]
       = [example_node ''A'' 400 (300 - 25 / pi)]
   \<and> min 300 (real (length [0::nat]) * 50 / (2 * pi)) = 25 / pi
   \<and> distance \<lparr>pos_x = 0, pos_y = 0\<rparr> \<lparr>pos_x = 400, pos_y = 300 - 25 / pi\<rparr> \<noteq> 25 / pi"
proof -
  have r: "min 300 (25 / pi) = 25 / pi" using small_radius[of 25] by simp
  have "read_nodes (snd (circularLayout (CustomLayoutEngine_new [0] [] origin_options) example_store)) [0]
       = [example_node ''A'' 400 (300 - 25 / pi)]"
    by (simp add: circularLayout_def Let_def origin_engine_fields circular_place_apply
        circular_point_def circular_angle_def circular_radius_def r read_nodes_def
        example_store_def example_node_def)
  then show ?thesis
    using far_from_origin r
    by (simp add: layout_def origin_engine_fields) (simp add: origin_options_def)
qed

text \<open>The tree layout on the two-node store, with and without dangling edges.\<close>

lemma example_nodeMap:
  "build_nodeMap example_store [0, Suc 0] = [(''B'', Suc 0), (''A'', 0)]"
  "build_nodeMap example_store [0] = [(''A'', 0)]"
  by (simp_all add: build_nodeMap_def example_store_def example_node_def)

lemma example_roots:
  "rootNodes example_store [0, Suc 0] [] = [0, Suc 0]"
  "rootNodes example_store [0, Suc 0] [example_edge ''e'' ''X'' ''B''] = [0]"
  "rootNodes example_store [0, Suc 0] [example_edge ''e1'' ''A'' ''B''] = [0]"
  "rootNodes example_store [0, Suc 0] [example_edge ''e1'' ''A'' ''B'', example_edge ''e2'' ''A'' ''X''] = [0]"
  "rootNodes example_store [0] [] = [0]"
  by (simp_all add: rootNodes_def example_store_def example_node_def example_edge_def)

lemma example_adjacency:
  "adj_get (build_adjacencyList example_store [0, Suc 0] []) k = []"
  "adj_get (build_adjacencyList example_store [0] []) k = []"
  "adj_get (build_adjacencyList example_store [0, Suc 0] [example_edge ''e'' ''X'' ''B'']) ''A'' = []"
  "adj_get (build_adjacencyList example_store [0, Suc 0] [example_edge ''e'' ''X'' ''B'']) ''B'' = []"
  "adj_get (build_adjacencyList example_store [0, Suc 0] [example_edge ''e1'' ''A'' ''B'']) ''A'' = [''B'']"
  "adj_get (build_adjacencyList example_store [0, Suc 0] [example_edge ''e1'' ''A'' ''B'']) ''B'' = []"
  "adj_get (build_adjacencyList example_store [0, Suc 0]
      [example_edge ''e1'' ''A'' ''B'', example_edge ''e2'' ''A'' ''X'']) ''A'' = [''B'', ''X'']"
  "adj_get (build_adjacencyList example_store [0, Suc 0]
      [example_edge ''e1'' ''A'' ''B'', example_edge ''e2'' ''A'' ''X'']) ''B'' = []"
  by (simp_all add: build_adjacencyList_def adj_get_def example_store_def example_node_def example_edge_def)

lemma example_store_ids:
  "node_id (example_store 0) = ''A''" "node_id (example_store (Suc 0)) = ''B''"
  "node_id (example_store 1) = ''B''"
  by (simp_all add: example_store_def example_node_def)

lemma visit_apply:
  "visit q h r = (if r = q_node q then (h r)\<lparr>position := \<lparr>pos_x = q_x q, pos_y = q_y q\<rparr>\<rparr> else h r)"
  by (simp add: visit_def set_position_x_def set_position_y_def)

lemma tree_dangling_source:
  "read_nodes (snd (treeLayout (CustomLayoutEngine_new [0, 1] [example_edge ''e'' ''X'' ''B'']
                       (example_options tree)) example_store)) [0, 1]
     = [example_node ''A'' 300 100, example_node ''B'' 7 7]"
  by (simp add: treeLayout_def Let_def example_engine_fields example_nodeMap example_roots
      root_entries_def example_store_ids example_adjacency child_entries_def visit_apply
      read_nodes_def) (simp add: example_store_def example_node_def)

lemma tree_no_edges:
  "read_nodes (snd (treeLayout (CustomLayoutEngine_new [0, 1] [] (example_options tree)) example_store)) [0, 1]
     = [example_node ''A'' 200 100, example_node ''B'' 400 100]"
  by (simp add: treeLayout_def Let_def example_engine_fields example_nodeMap example_roots
      root_entries_def example_store_ids example_adjacency child_entries_def visit_apply
      read_nodes_def) (simp add: example_store_def example_node_def)

lemma tree_one_edge:
  "read_nodes (snd (treeLayout (CustomLayoutEngine_new [0, 1] [example_edge ''e1'' ''A'' ''B'']
                       (example_options tree)) example_store)) [0, 1]
     = [example_node ''A'' 300 100, example_node ''B'' 300 200]"
  by (simp add: treeLayout_def Let_def example_engine_fields example_nodeMap example_roots
      root_entries_def example_store_ids example_adjacency child_entries_def visit_apply
      read_nodes_def) (simp add: example_store_def example_node_def)

lemma tree_dangling_target:
  "read_nodes (snd (treeLayout (CustomLayoutEngine_new [0, 1]
                       [example_edge ''e1'' ''A'' ''B'', example_edge ''e2'' ''A'' ''X'']
                       (example_options tree)) example_store)) [0, 1]
     = [example_node ''A'' 300 100, example_node ''B'' 225 200]"
  by (simp add: treeLayout_def Let_def example_engine_fields example_nodeMap example_roots
      root_entries_def example_store_ids example_adjacency child_entries_def visit_apply
      read_nodes_def) (simp add: example_store_def example_node_def)

text \<open>The force-directed layout skips an edge with a missing end.\<close>

lemma attract_skips_dangling:
  assumes "(\<forall>r\<in>set ns. node_id (h r) \<noteq> source e) \<or> (\<forall>r\<in>set ns. node_id (h r) \<noteq> target e)"
  shows "attract opts ns h e fs = fs"
proof -
  have "find (\<lambda>r. node_id (h r) = source e) ns = None
        \<or> find (\<lambda>r. node_id (h r) = target e) ns = None"
    using assms by (auto simp: find_None_iff)
  then show ?thesis by (auto simp: attract_def split: option.splits)
qed

text \<open>
  Claim C4. An edge whose source or target is not a node id is not ignored by the tree
  layout. With nodes A and B and the single edge X -> B (X is no node), B counts as
  having an incoming edge: A is the only root and B is never placed, whereas without the
  edge both are roots. With edges A -> B and A -> X, the missing child X still counts in
  the spacing of A's children: B is placed at x = 225, and at x = 300 without that edge.
\<close>

theorem treeLayout_counts_dangling_edges:
  "rootNodes example_store [0, 1] [example_edge ''e'' ''X'' ''B''] = [0]
   \<and> rootNodes example_store [0, 1] [] = [0, 1]
   \<and> read_nodes (snd (layout (CustomLayoutEngine_new [0, 1] [example_edge ''e'' ''X'' ''B'']
                            (example_options tree)) (\<lambda>_. 0) example_store)) [0, 1]
       = [example_node ''A'' 300 100, example_node ''B'' 7 7]
   \<and> read_nodes (snd (layout (CustomLayoutEngine_new [0, 1] [] (example_options tree))
                            (\<lambda>_. 0) example_store)) [0, 1]
       = [example_node ''A'' 200 100, example_node ''B'' 400 100]
   \<and> read_nodes (snd (layout (CustomLayoutEngine_new [0, 1]
                            [example_edge ''e1'' ''A'' ''B'', example_edge ''e2'' ''A'' ''X'']
                            (example_options tree)) (\<lambda>_. 0) example_store)) [0, 1]
       = [example_node ''A'' 300 100, example_node ''B'' 225 200]
   \<and> read_nodes (snd (layout (CustomLayoutEngine_new [0, 1] [example_edge ''e1'' ''A'' ''B'']
                            (example_options tree)) (\<lambda>_. 0) example_store)) [0, 1]
       = [example_node ''A'' 300 100, example_node ''B'' 300 200]"
  using tree_dangling_source tree_no_edges tree_dangling_target tree_one_edge
  by (simp add: layout_def example_engine_fields example_roots)

lemma tree_single:
  "read_nodes (snd (treeLayout (CustomLayoutEngine_new [0] [] (example_options tree)) example_store)) [0]
     = [example_node ''A'' 300 100]"
  by (simp add: treeLayout_def Let_def example_engine_fields example_nodeMap example_roots
      root_entries_def example_store_ids example_adjacency child_entries_def visit_apply
      read_nodes_def) (simp add: example_store_def example_node_def)

lemma circular_single:
  "read_nodes (snd (circularLayout (CustomLayoutEngine_new [0] [] (example_options circular)) example_store)) [0]
     = [example_node ''A'' 400 (300 - 25 / pi)]"
proof -
  have r: "min 300 (25 / pi) = 25 / pi" using small_radius[of 25] by simp
  show ?thesis
    by (simp add: circularLayout_def Let_def example_engine_fields circular_place_apply
        circular_point_def circular_angle_def circular_radius_def r read_nodes_def
        example_store_def example_node_def)
qed

lemma grid_single:
  "read_nodes (snd (gridLayout (CustomLayoutEngine_new [0] [] (example_options grid)) example_store)) [0]
     = [example_node ''A'' 400 300]"
  by (simp add: gridLayout_def Let_def example_engine_fields grid_place_def set_position_x_def
      set_position_y_def read_nodes_def example_store_def example_node_def)

text \<open>
  Claim C2. The custom engine is not free of effects on its input: it copies the array
  but writes to the node objects the array refers to. The caller's node A, at (0, 0)
  before the call, is at (400, 300 - 25/pi) after a circular layout, at (300, 100) after
  a tree layout and at (400, 300) after a grid layout, read through the caller's own
  array.
\<close>

theorem custom_layout_writes_input_nodes:
  "read_nodes example_store [0] = [example_node ''A'' 0 0]
   \<and> read_nodes (snd (layout (CustomLayoutEngine_new [0] [] (example_options circular))
                            (\<lambda>_. 0) example_store)) [0]
       = [example_node ''A'' 400 (300 - 25 / pi)]
   \<and> read_nodes (snd (layout (CustomLayoutEngine_new [0] [] (example_options tree))
                            (\<lambda>_. 0) example_store)) [0]
       = [example_node ''A'' 300 100]
   \<and> read_nodes (snd (layout (CustomLayoutEngine_new [0] [] (example_options grid))
                            (\<lambda>_. 0) example_store)) [0]
       = [example_node ''A'' 400 300]"
  using circular_single tree_single grid_single
  by (simp add: layout_def example_engine_fields) (simp add: read_nodes_def example_store_def)

text \<open>What the two maps of the tree layout hold, and which entries a visit enqueues.\<close>

lemma fold_Cons_map_rev: "fold (\<lambda>a m. g a # m) xs m = rev (map g xs) @ m"
  by (induction xs arbitrary: m) simp_all

lemma build_nodeMap_eq: "build_nodeMap h ns = rev (map (\<lambda>r. (node_id (h r), r)) ns)"
  by (simp add: build_nodeMap_def fold_Cons_map_rev)

lemma build_nodeMap_Some:
  "map_of (build_nodeMap h ns) c = Some r \<Longrightarrow> r \<in> set ns \<and> node_id (h r) = c"
  by (auto simp: build_nodeMap_eq dest!: map_of_SomeD)

lemma build_nodeMap_dom:
  "(\<exists>r. map_of (build_nodeMap h ns) c = Some r) \<longleftrightarrow> c \<in> (\<lambda>r. node_id (h r)) ` set ns"
proof -
  have "fst ` set (build_nodeMap h ns) = (\<lambda>r. node_id (h r)) ` set ns"
    by (simp add: build_nodeMap_eq image_image)
  then show ?thesis
    by (metis map_of_eq_None_iff not_None_eq)
qed

lemma build_nodeMap_ok: "nodeMap_ok (build_nodeMap h ns) h"
  by (simp add: nodeMap_ok_def build_nodeMap_Some)


lemma adj_get_Cons:
  "adj_get ((k, l) # m) u = (if u = k then l else adj_get m u)"
  by (simp add: adj_get_def)

lemma adj_get_nodes_init:
  "adj_get m u = [] \<Longrightarrow> adj_get (fold (\<lambda>r m. (node_id (h r), []) # m) ns m) u = []"
  by (induction ns arbitrary: m) (simp_all add: adj_get_Cons)

lemma adj_get_edges_fold:
  "adj_get (fold (\<lambda>e m. (source e, adj_get m (source e) @ [target e]) # m) es m) u
     = adj_get m u @ map target (filter (\<lambda>e. source e = u) es)"
  by (induction es arbitrary: m) (simp_all add: adj_get_Cons)

lemma build_adjacencyList_get:
  "adj_get (build_adjacencyList h ns es) u = map target (filter (\<lambda>e. source e = u) es)"
proof -
  have "adj_get (fold (\<lambda>r m. (node_id (h r), []) # m) ns []) u = []"
    by (rule adj_get_nodes_init) (simp add: adj_get_def)
  then show ?thesis by (simp add: build_adjacencyList_def adj_get_edges_fold)
qed

lemma child_entries_sound:
  assumes "q \<in> set (child_entries nodeMap visited cs x y l)"
  shows "\<exists>c\<in>set cs. map_of nodeMap c = Some (q_node q) \<and> c \<notin> visited"
  using assms
  by (auto simp: child_entries_def in_set_enumerate_eq split: option.splits if_splits)

lemma child_entries_complete:
  assumes "c \<in> set cs" "map_of nodeMap c = Some r" "c \<notin> visited"
  shows "\<exists>q\<in>set (child_entries nodeMap visited cs x y l). q_node q = r"
proof -
  obtain i where i: "i < length cs" "cs ! i = c" using assms(1) by (meson in_set_conv_nth)
  then have "(i, c) \<in> set (enumerate 0 cs)" by (simp add: in_set_enumerate_eq)
  then show ?thesis using assms(2,3)
    by (force simp: child_entries_def)
qed

lemma nodeMap_ok_visit: "nodeMap_ok nodeMap h \<Longrightarrow> nodeMap_ok nodeMap (visit q h)"
  by (simp add: nodeMap_ok_def)

text \<open>Soundness: the loop visits, and writes to, only nodes whose id lies in a set that
  holds the queued ids and is closed under the children that are nodes.\<close>

lemma treeBFS_sound:
  assumes "\<forall>u\<in>S. \<forall>c\<in>set (adj_get adj u). \<forall>r. map_of nodeMap c = Some r \<longrightarrow> c \<in> S"
    and "\<forall>q\<in>set queue. node_id (h (q_node q)) \<in> S"
    and "nodeMap_ok nodeMap h"
  shows "fst (treeBFS nodeMap adj visited queue h) \<subseteq> visited \<union> S
       \<and> (\<forall>r. node_id (h r) \<notin> S \<longrightarrow> snd (treeBFS nodeMap adj visited queue h) r = h r)"
  using assms
proof (induction nodeMap adj visited queue h rule: treeBFS.induct)
  case (1 nodeMap adj visited h)
  show ?case by simp
next
  case (2 nodeMap adj visited q queue h)
  let ?i = "node_id (h (q_node q))"
  have iS: "?i \<in> S" using "2.prems"(2) by simp
  show ?case
  proof (cases "?i \<in> visited")
    case True
    then show ?thesis using "2.IH"(1)[OF True "2.prems"(1) _ "2.prems"(3)] "2.prems"(2) by simp
  next
    case False
    let ?V = "insert ?i visited"
    let ?new = "child_entries nodeMap ?V (adj_get adj ?i) (q_x q) (q_y q) (q_level q)"
    have q': "\<forall>q'\<in>set (queue @ ?new). node_id (visit q h (q_node q')) \<in> S"
    proof
      fix q' assume "q' \<in> set (queue @ ?new)"
      then consider "q' \<in> set queue" | "q' \<in> set ?new" by auto
      then show "node_id (visit q h (q_node q')) \<in> S"
      proof cases
        case 1
        then show ?thesis using "2.prems"(2) by simp
      next
        case 2
        then obtain c where c: "c \<in> set (adj_get adj ?i)" "map_of nodeMap c = Some (q_node q')"
          using child_entries_sound by blast
        then have "node_id (h (q_node q')) = c" using "2.prems"(3) by (simp add: nodeMap_ok_def)
        moreover have "c \<in> S" using "2.prems"(1) iS c by blast
        ultimately show ?thesis by simp
      qed
    qed
    note ih = "2.IH"(2)[OF False "2.prems"(1) q' nodeMap_ok_visit[OF "2.prems"(3)]]
    have eq: "treeBFS nodeMap adj visited (q # queue) h = treeBFS nodeMap adj ?V (queue @ ?new) (visit q h)"
      using False by simp
    have a: "fst (treeBFS nodeMap adj visited (q # queue) h) \<subseteq> visited \<union> S"
      unfolding eq using ih iS by auto
    have b: "snd (treeBFS nodeMap adj visited (q # queue) h) r = h r" if "node_id (h r) \<notin> S" for r
    proof -
      have "r \<noteq> q_node q" using that iS by auto
      then have "visit q h r = h r" by (simp add: visit_apply)
      moreover have "snd (treeBFS nodeMap adj ?V (queue @ ?new) (visit q h)) r = visit q h r"
        using ih that by simp
      ultimately show ?thesis unfolding eq by simp
    qed
    show ?thesis using a b by blast
  qed
qed

text \<open>Completeness: every queued id ends up visited, and the visited ids are closed
  under the children that are nodes.\<close>

lemma treeBFS_complete:
  assumes "\<forall>u\<in>visited. \<forall>c\<in>set (adj_get adj u). \<forall>r. map_of nodeMap c = Some r \<longrightarrow>
             c \<in> visited \<or> c \<in> (\<lambda>q. node_id (h (q_node q))) ` set queue"
    and "nodeMap_ok nodeMap h"
  shows "visited \<union> (\<lambda>q. node_id (h (q_node q))) ` set queue \<subseteq> fst (treeBFS nodeMap adj visited queue h)
       \<and> (\<forall>u\<in>fst (treeBFS nodeMap adj visited queue h). \<forall>c\<in>set (adj_get adj u).
            \<forall>r. map_of nodeMap c = Some r \<longrightarrow> c \<in> fst (treeBFS nodeMap adj visited queue h))"
  using assms
proof (induction nodeMap adj visited queue h rule: treeBFS.induct)
  case (1 nodeMap adj visited h)
  then show ?case by simp
next
  case (2 nodeMap adj visited q queue h)
  let ?i = "node_id (h (q_node q))"
  show ?case
  proof (cases "?i \<in> visited")
    case True
    have inv: "\<forall>u\<in>visited. \<forall>c\<in>set (adj_get adj u). \<forall>r. map_of nodeMap c = Some r \<longrightarrow>
             c \<in> visited \<or> c \<in> (\<lambda>q. node_id (h (q_node q))) ` set queue"
      using "2.prems"(1) True by auto
    show ?thesis using "2.IH"(1)[OF True inv "2.prems"(2)] True by auto
  next
    case False
    let ?V = "insert ?i visited"
    let ?new = "child_entries nodeMap ?V (adj_get adj ?i) (q_x q) (q_y q) (q_level q)"
    have inv: "\<forall>u\<in>?V. \<forall>c\<in>set (adj_get adj u). \<forall>r. map_of nodeMap c = Some r \<longrightarrow>
             c \<in> ?V \<or> c \<in> (\<lambda>q'. node_id (visit q h (q_node q'))) ` set (queue @ ?new)"
    proof (intro ballI allI impI)
      fix u c r
      assume u: "u \<in> ?V" and c: "c \<in> set (adj_get adj u)" and r: "map_of nodeMap c = Some r"
      show "c \<in> ?V \<or> c \<in> (\<lambda>q'. node_id (visit q h (q_node q'))) ` set (queue @ ?new)"
      proof (cases "u = ?i")
        case True
        show ?thesis
        proof (cases "c \<in> ?V")
          case True
          then show ?thesis by blast
        next
          case False
          then obtain q' where q': "q' \<in> set ?new" "q_node q' = r"
            using child_entries_complete[OF _ r False] c True by blast
          have "node_id (h r) = c" using "2.prems"(2) r by (simp add: nodeMap_ok_def)
          then have "node_id (visit q h (q_node q')) = c" using q' by simp
          then show ?thesis using q'(1) by force
        qed
      next
        case False
        then have "u \<in> visited" using u by simp
        then have "c \<in> visited \<or> c \<in> (\<lambda>q. node_id (h (q_node q))) ` set (q # queue)"
          using "2.prems"(1) c r by blast
        then show ?thesis by auto
      qed
    qed
    note ih = "2.IH"(2)[OF False inv nodeMap_ok_visit[OF "2.prems"(2)]]
    have eq: "treeBFS nodeMap adj visited (q # queue) h = treeBFS nodeMap adj ?V (queue @ ?new) (visit q h)"
      using False by simp
    show ?thesis unfolding eq using ih by auto
  qed
qed



lemma root_entries_nodes: "map q_node (root_entries opts roots) = roots"
proof -
  have "map q_node (root_entries opts roots) = map snd (enumerate 0 roots)"
    by (simp add: root_entries_def case_prod_unfold comp_def)
  then show ?thesis by simp
qed






text \<open>The ids the tree layout visits are the reachable ones, and it writes to no node
  whose id is not reachable.\<close>

lemma treeLayout_sound:
  "treeVisited eng h \<subseteq> {v. tree_reachable eng h v}"
  "\<not> tree_reachable eng h (node_id (h r)) \<Longrightarrow> snd (treeLayout eng h) r = h r"
proof -
  let ?ns = "eng_nodes eng" and ?es = "eng_edges eng"
  let ?S = "{v. tree_reachable eng h v}"
  have closed: "\<forall>u\<in>?S. \<forall>c\<in>set (adj_get (build_adjacencyList h ?ns ?es) u).
                  \<forall>r. map_of (build_nodeMap h ?ns) c = Some r \<longrightarrow> c \<in> ?S"
  proof (intro ballI allI impI)
    fix u c r
    assume u: "u \<in> ?S" and c: "c \<in> set (adj_get (build_adjacencyList h ?ns ?es) u)"
      and r: "map_of (build_nodeMap h ?ns) c = Some r"
    obtain e where e: "e \<in> set ?es" "source e = u" "target e = c"
      using c by (auto simp: build_adjacencyList_get)
    have "c \<in> set (map (\<lambda>r. node_id (h r)) ?ns)"
      using build_nodeMap_Some[OF r] by auto
    then show "c \<in> ?S"
      using u e by (auto simp: tree_reachable_def intro: tree_reach.step)
  qed
  have queued: "\<forall>q\<in>set (root_entries (options eng) (rootNodes h ?ns ?es)). node_id (h (q_node q)) \<in> ?S"
  proof
    fix q assume "q \<in> set (root_entries (options eng) (rootNodes h ?ns ?es))"
    then have "q_node q \<in> set (map q_node (root_entries (options eng) (rootNodes h ?ns ?es)))"
      by simp
    then have "q_node q \<in> set (rootNodes h ?ns ?es)" by (simp only: root_entries_nodes)
    then show "node_id (h (q_node q)) \<in> ?S"
      by (auto simp: tree_reachable_def intro: tree_reach.root)
  qed
  note s = treeBFS_sound[OF closed queued build_nodeMap_ok, of "{}"]
  show "treeVisited eng h \<subseteq> {v. tree_reachable eng h v}"
    using s by (simp add: treeVisited_def Let_def)
  show "\<not> tree_reachable eng h (node_id (h r)) \<Longrightarrow> snd (treeLayout eng h) r = h r"
    using s by (simp add: treeLayout_def Let_def)
qed

lemma treeLayout_complete:
  assumes "tree_reachable eng h v"
  shows "v \<in> treeVisited eng h"
proof -
  let ?ns = "eng_nodes eng" and ?es = "eng_edges eng"
  let ?Q = "root_entries (options eng) (rootNodes h ?ns ?es)"
  let ?NM = "build_nodeMap h ?ns" and ?A = "build_adjacencyList h ?ns ?es"
  have inv: "\<forall>u\<in>{}. \<forall>c\<in>set (adj_get ?A u). \<forall>r. map_of ?NM c = Some r \<longrightarrow>
             c \<in> {} \<or> c \<in> (\<lambda>q. node_id (h (q_node q))) ` set ?Q"
    by simp
  note c = treeBFS_complete[OF inv build_nodeMap_ok]
  have V: "treeVisited eng h = fst (treeBFS ?NM ?A {} ?Q h)"
    by (simp add: treeVisited_def Let_def)
  have roots: "(\<lambda>q. node_id (h (q_node q))) ` set ?Q \<subseteq> treeVisited eng h"
    unfolding V using c by simp
  have closed: "\<forall>u\<in>treeVisited eng h. \<forall>c\<in>set (adj_get ?A u).
                 \<forall>r. map_of ?NM c = Some r \<longrightarrow> c \<in> treeVisited eng h"
    unfolding V using c by simp
  have "tree_reach (set (map (\<lambda>r. node_id (h r)) (rootNodes h ?ns ?es)))
          (set (map (\<lambda>r. node_id (h r)) ?ns)) ?es v"
    using assms by (simp add: tree_reachable_def)
  then show ?thesis
  proof (induction rule: tree_reach.induct)
    case (root v)
    then obtain r where r: "r \<in> set (rootNodes h ?ns ?es)" "v = node_id (h r)" by auto
    then have "r \<in> set (map q_node ?Q)" by (simp only: root_entries_nodes)
    then show ?case using roots r(2) by auto
  next
    case (step u e v)
    have "v \<in> set (adj_get ?A u)"
      using step by (auto simp: build_adjacencyList_get)
    moreover obtain r where "map_of ?NM v = Some r"
      using step build_nodeMap_dom[of h ?ns v] by auto
    ultimately show ?case using closed step.IH by blast
  qed
qed







text \<open>Roots and reachability on the two-node store.\<close>

lemma example_cycle_roots:
  "rootNodes example_store [0, Suc 0] [example_edge ''e1'' ''A'' ''B'', example_edge ''e2'' ''B'' ''A''] = [0]"
  "rootNodes example_store [0, Suc 0] [example_edge ''e1'' ''A'' ''A'', example_edge ''e2'' ''B'' ''B''] = [0]"
  by (simp_all add: rootNodes_def example_store_def example_node_def example_edge_def)




text \<open>Two nodes with an edge to themselves each: only A is visited.\<close>

lemma example_loops_adjacency:
  "adj_get (build_adjacencyList example_store [0, Suc 0]
      [example_edge ''e1'' ''A'' ''A'', example_edge ''e2'' ''B'' ''B'']) ''A'' = [''A'']"
  by (simp add: build_adjacencyList_get example_edge_def)

lemma example_loops_visited:
  "treeVisited (CustomLayoutEngine_new [0, Suc 0]
      [example_edge ''e1'' ''A'' ''A'', example_edge ''e2'' ''B'' ''B''] (example_options tree))
      example_store = {''A''}"
  by (simp add: treeVisited_def Let_def example_engine_fields example_nodeMap example_cycle_roots
      root_entries_def example_store_ids example_loops_adjacency child_entries_def)

text \<open>
  Claim C10. In the tree layout a node the loop never visits, that is a node whose id is
  not reachable from a detected root along edges between nodes, is left exactly as it
  was: its position in the returned array is its input position.
\<close>

theorem treeLayout_unvisited_keeps_position:
  "(node_id (h r) \<notin> treeVisited eng h \<longrightarrow> snd (treeLayout eng h) r = h r)
   \<and> (\<not> tree_reachable eng h (node_id (h r)) \<longrightarrow> snd (treeLayout eng h) r = h r)"
  using treeLayout_sound(2)[of eng h r] treeLayout_complete[of eng h "node_id (h r)"] by blast

text \<open>The theorem on two nodes that each have an edge to themselves: no node is free of
  incoming edges, the first node A is made the root, and B, in a component of its own,
  keeps its input position (7, 7).\<close>

theorem treeLayout_unvisited_witness:
  "node_id (example_store 1)
     \<notin> treeVisited (CustomLayoutEngine_new [0, 1]
          [example_edge ''e1'' ''A'' ''A'', example_edge ''e2'' ''B'' ''B''] (example_options tree))
          example_store
   \<and> \<not> tree_reachable (CustomLayoutEngine_new [0, 1]
          [example_edge ''e1'' ''A'' ''A'', example_edge ''e2'' ''B'' ''B''] (example_options tree))
          example_store (node_id (example_store 1))
   \<and> snd (treeLayout (CustomLayoutEngine_new [0, 1]
          [example_edge ''e1'' ''A'' ''A'', example_edge ''e2'' ''B'' ''B''] (example_options tree))
          example_store) 1 = example_node ''B'' 7 7"
proof -
  let ?E = "CustomLayoutEngine_new [0, 1]
          [example_edge ''e1'' ''A'' ''A'', example_edge ''e2'' ''B'' ''B''] (example_options tree)"
  have h1: "node_id (example_store 1) \<notin> treeVisited ?E example_store"
    by (simp add: example_loops_visited example_store_ids)
  have h2: "\<not> tree_reachable ?E example_store (node_id (example_store 1))"
    using h1 treeLayout_complete by blast
  have "snd (treeLayout ?E example_store) 1 = example_store 1"
    using treeLayout_unvisited_keeps_position[of example_store 1 ?E] h1 by blast
  then show ?thesis using h1 h2 by (simp add: example_store_def)
qed

end
